theory Spec2Isabelle
  imports Main "HOL-Library.Sublist"
begin

section \<open>Python string primitives used by agent.py\<close>

text \<open>
  Python \<open>str\<close> values are modelled as \<open>string\<close>, lists of 8-bit characters: a character
  is a code point below 256, and the character classes below (\<open>is_digit\<close>, \<open>is_space\<close>) are
  Python's classes on these code points.  Text holding a code point from 256 on is not a
  value of the type.  \<open>s.startswith(p)\<close> is \<open>prefix p s\<close>, \<open>s.endswith(p)\<close> is \<open>suffix p s\<close>
  and \<open>p in s\<close> is \<open>sublist p s\<close>.
\<close>

definition startswith :: "string \<Rightarrow> string \<Rightarrow> bool" where
  "startswith s p = prefix p s"

definition endswith :: "string \<Rightarrow> string \<Rightarrow> bool" where
  "endswith s p = suffix p s"

text \<open>
  \<open>s.replace(old, new)\<close>: the occurrences of \<open>old\<close> are found from left to right and do
  not overlap.  For an empty \<open>old\<close> Python puts \<open>new\<close> before every character and at the end.
\<close>

function py_replace :: "string \<Rightarrow> string \<Rightarrow> string \<Rightarrow> string" where
  "py_replace old new s =
     (if old = [] then new @ concat (map (\<lambda>c. c # new) s)
      else if s = [] then []
      else if prefix old s then new @ py_replace old new (drop (length old) s)
      else hd s # py_replace old new (tl s))"
  by pat_completeness auto
termination
  by (relation "measure (\<lambda>(old, new, s). length s)") auto

declare py_replace.simps [simp del]

text \<open>\<open>str(n)\<close> and \<open>f"{n}"\<close> for an integer: decimal digits, a minus sign when negative.\<close>

definition digit_char :: "nat \<Rightarrow> char" where
  "digit_char d = ''0123456789'' ! d"

function str_nat :: "nat \<Rightarrow> string" where
  "str_nat n = (if n < 10 then [digit_char n] else str_nat (n div 10) @ [digit_char (n mod 10)])"
  by pat_completeness auto
termination
  by (relation "measure id") auto

declare str_nat.simps [simp del]

definition str_int :: "int \<Rightarrow> string" where
  "str_int i = (if i < 0 then CHR ''-'' # str_nat (nat (- i)) else str_nat (nat i))"

text \<open>
  The regular expression class \<open>\d\<close>, and \<open>int(ds)\<close> of a digit string.  For a \<open>str\<close> pattern
  \<open>\d\<close> is the decimal digits of Unicode; the ten digits \<open>0\<close> to \<open>9\<close> are the only ones below
  code point 256.
\<close>

definition is_digit :: "char \<Rightarrow> bool" where
  "is_digit c = (c \<in> set ''0123456789'')"

definition digit_val :: "char \<Rightarrow> int" where
  "digit_val c = int (of_char c) - 48"

definition py_int :: "string \<Rightarrow> int" where
  "py_int ds = foldl (\<lambda>a c. 10 * a + digit_val c) 0 ds"

section \<open>create\_new\_version: placeholder substitution\<close>

text \<open>
  Lines 211-213 of agent.py: three successive \<open>str.replace\<close> calls on the evolution script.
  \<open>current_filename\<close> is \<open>os.path.basename(__file__)\<close>.
\<close>

definition substitute_placeholders :: "string \<Rightarrow> int \<Rightarrow> string \<Rightarrow> string" where
  "substitute_placeholders evolution_script version current_filename =
     (let script_with_version1 =
            py_replace ''agent_vN.py'' (''agent_v'' @ str_int version @ ''.py'') evolution_script;
          script_with_version2 =
            py_replace ''vN'' (''v'' @ str_int version) script_with_version1
      in py_replace ''CURRENT_AGENT'' current_filename script_with_version2)"

section \<open>get\_next\_version\<close>

text \<open>
  \<open>re.search(r'agent_v(\d+)\.py', filename)\<close>.  \<open>match_here\<close> is the pattern tried at the start
  of the text: the literal \<open>agent_v\<close>, then the greedy digit run, then the literal \<open>.py\<close>
  (giving back digits cannot help, since the next character would still be a digit).
  \<open>re_search\<close> tries every start position from left to right and returns group 1 of the
  first match.
\<close>

definition match_here :: "string \<Rightarrow> string option" where
  "match_here s =
     (if prefix ''agent_v'' s then
        (let r = drop 7 s; ds = takeWhile is_digit r in
         if ds \<noteq> [] \<and> prefix ''.py'' (dropWhile is_digit r) then Some ds else None)
      else None)"

fun re_search :: "string \<Rightarrow> string option" where
  "re_search [] = match_here []"
| "re_search (c # cs) =
     (case match_here (c # cs) of Some ds \<Rightarrow> Some ds | None \<Rightarrow> re_search cs)"

text \<open>
  Lines 71-81 of agent.py; \<open>listing\<close> is the result of \<open>os.listdir('.')\<close>, the only thing the
  function reads.
\<close>

definition get_next_version :: "string list \<Rightarrow> int" where
  "get_next_version listing =
     (let existing = filter (\<lambda>f. startswith f ''agent_v'' \<and> endswith f ''.py'') listing in
      if existing = [] then 1
      else
        (let versions =
               List.map_filter (\<lambda>filename. map_option py_int (re_search filename)) existing
         in if versions \<noteq> [] then Max (set versions) + 1 else 1))"

text \<open>
  The version registry as the specification words it: the artifacts are the files named
  \<open>agent_v<digits>.py\<close>, and the next version is one more than the largest of their numbers,
  or 1 when there is none.
\<close>

definition artifact_version :: "string \<Rightarrow> int option" where
  "artifact_version f =
     (let ds = takeWhile is_digit (drop 7 f) in
      if ds \<noteq> [] \<and> f = ''agent_v'' @ ds @ ''.py'' then Some (py_int ds) else None)"

definition next_version_spec :: "string list \<Rightarrow> int" where
  "next_version_spec listing =
     (let vs = List.map_filter artifact_version listing in
      if vs = [] then 1 else Max (set vs) + 1)"

text \<open>
  A second reading of the same sentence takes as artifacts all the names in which the pattern
  occurs anywhere, as \<open>re.search\<close> finds it.
\<close>

definition next_version_anywhere :: "string list \<Rightarrow> int" where
  "next_version_anywhere listing =
     (let vs = List.map_filter (\<lambda>f. map_option py_int (re_search f)) listing in
      if vs = [] then 1 else Max (set vs) + 1)"

section \<open>generate\_evolution\_script: extracting the script from the response\<close>

text \<open>
  \<open>s.split(sep)\<close> for a non-empty separator: the pieces between the occurrences of \<open>sep\<close>,
  found from left to right without overlap; the result always has at least one piece.  Python
  raises \<open>ValueError\<close> on an empty separator; agent.py only passes the two fence literals, and
  the model returns the text unsplit there.
\<close>

function py_split :: "string \<Rightarrow> string \<Rightarrow> string list" where
  "py_split sep s =
     (if sep = [] then [s]
      else if s = [] then [[]]
      else if prefix sep s then [] # py_split sep (drop (length sep) s)
      else (case py_split sep (tl s) of
              [] \<Rightarrow> [[hd s]]
            | p # ps \<Rightarrow> (hd s # p) # ps))"
  by pat_completeness auto
termination
  by (relation "measure (\<lambda>(sep, s). length s)") auto

declare py_split.simps [simp del]

text \<open>\<open>xs[i]\<close> for \<open>i \<ge> 0\<close>: an index past the end raises \<open>IndexError\<close>.\<close>

datatype py_error = IndexError

definition py_index :: "'a list \<Rightarrow> nat \<Rightarrow> py_error + 'a" where
  "py_index xs i = (if i < length xs then Inr (xs ! i) else Inl IndexError)"

text \<open>
  \<open>s.strip()\<close>: the characters Python's \<open>str.isspace\<close> accepts are removed at both ends.  Below
  code point 256 these are the tab, the line feed, the vertical tab, the form feed, the
  carriage return, the four separators \<open>0x1C\<close> to \<open>0x1F\<close>, the space, the next-line control
  \<open>0x85\<close> and the no-break space \<open>0xA0\<close>.
\<close>

definition is_space :: "char \<Rightarrow> bool" where
  "is_space c =
     (c \<in> set [CHR 0x09, CHR 0x0A, CHR 0x0B, CHR 0x0C, CHR 0x0D,
                CHR 0x1C, CHR 0x1D, CHR 0x1E, CHR 0x1F, CHR 0x20,
                CHR 0x85, CHR 0xA0])"

definition py_strip :: "string \<Rightarrow> string" where
  "py_strip s = rev (dropWhile is_space (rev (dropWhile is_space s)))"

text \<open>The two fence literals of lines 183-186: three backquotes, and three backquotes and \<open>bash\<close>.\<close>

definition fence :: string where
  "fence = [CHR 0x60, CHR 0x60, CHR 0x60]"

definition bash_fence :: string where
  "bash_fence = fence @ ''bash''"

text \<open>
  Lines 180-188 of agent.py, applied to the text of the response: \<open>between sep script\<close> is
  \<open>script.split(sep)[1].split(fence)[0].strip()\<close>.
\<close>

definition between :: "string \<Rightarrow> string \<Rightarrow> py_error + string" where
  "between sep script =
     (case py_index (py_split sep script) 1 of
        Inl e \<Rightarrow> Inl e
      | Inr part \<Rightarrow>
          (case py_index (py_split fence part) 0 of
             Inl e \<Rightarrow> Inl e
           | Inr body \<Rightarrow> Inr (py_strip body)))"

definition extract_script :: "string \<Rightarrow> py_error + string" where
  "extract_script script =
     (if sublist bash_fence script then between bash_fence script
      else if sublist fence script then between fence script
      else Inr script)"

section \<open>Effects: exceptions, the trace of external calls, the answers of the collaborators\<close>

text \<open>
  Every exception agent.py can meet in its main loop is a subclass of \<open>Exception\<close>; the
  string is \<open>str(error)\<close>.  An asynchronous \<open>KeyboardInterrupt\<close> is not modelled.
\<close>

datatype py_exception =
    TimeoutExpired string
  | CalledProcessError string
  | PyException string

fun str_of_exception :: "py_exception \<Rightarrow> string" where
  "str_of_exception (TimeoutExpired s) = s"
| "str_of_exception (CalledProcessError s) = s"
| "str_of_exception (PyException s) = s"

text \<open>
  A computation ends by returning, by raising, by replacing the process (\<open>os.execv\<close>) or by
  \<open>sys.exit\<close>; \<open>except Exception\<close> catches the raised exceptions only.
\<close>

datatype abort = Raise py_exception | Replaced string | Exit int

text \<open>The JSON payloads of the requests; the body text of the pull request is left out.\<close>

datatype payload =
    No_json
  | Json_body string
  | Json_labels "string list"
  | Json_state string
  | Json_pull string string string

text \<open>The external calls, in the order agent.py makes them.\<close>

datatype event =
    List_dir
  | Chat_completion string "(string \<times> string) option"
  | Write_file string string
  | Chmod string
  | Run_bash string
  | Run_test string
  | Git "string list"
  | Github_api string string payload
  | Execv string
  | Sleep nat
  | Print string

text \<open>
  The state threaded through \<open>main\<close>: the calls made so far, and the local variable
  \<open>evolution_script\<close>, which is unset until its first assignment and then keeps its last
  value across attempts and issues (the handler tests \<open>'evolution_script' in locals()\<close>).
\<close>

record state =
  trace :: "event list"
  evolution_script :: "string option"

type_synonym 'a io = "state \<Rightarrow> (abort + 'a) \<times> state"

definition io_return :: "'a \<Rightarrow> 'a io" where
  "io_return x st = (Inr x, st)"

definition io_abort :: "abort \<Rightarrow> 'a io" where
  "io_abort a st = (Inl a, st)"

definition io_raise :: "py_exception \<Rightarrow> 'a io" where
  "io_raise e = io_abort (Raise e)"

definition io_bind :: "'a io \<Rightarrow> ('a \<Rightarrow> 'b io) \<Rightarrow> 'b io" where
  "io_bind m f st = (case m st of (Inl a, st') \<Rightarrow> (Inl a, st') | (Inr x, st') \<Rightarrow> f x st')"

text \<open>\<open>try: m except Exception as error: handler error\<close>.\<close>

definition io_try :: "'a io \<Rightarrow> (py_exception \<Rightarrow> 'a io) \<Rightarrow> 'a io" where
  "io_try m handler st =
     (case m st of (Inl (Raise e), st') \<Rightarrow> handler e st' | other \<Rightarrow> other)"

definition emit :: "event \<Rightarrow> unit io" where
  "emit e st = (Inr (), st\<lparr>trace := trace st @ [e]\<rparr>)"

text \<open>The events a computation adds to the trace of a state.\<close>

definition new_events :: "state \<Rightarrow> state \<Rightarrow> event list" where
  "new_events st st' = drop (length (trace st)) (trace st')"

text \<open>
  The answers of the outside world.  Within one scan every call site runs at most once per
  issue and attempt, so the answers are indexed by the position of the issue in the list, the
  attempt number and the call site.  \<open>None\<close> means that the call returned.
\<close>

datatype api_site =
    Pulls_site
  | Success_comment_site
  | Close_site
  | Tests_comment_site
  | Tests_label_site
  | Error_comment_site
  | Error_label_site

record attempt_world =
  chat_response :: "py_exception + string"
  bash_result :: "py_exception + int \<times> string"
  test_result :: "py_exception + int"
  git_error :: "nat \<Rightarrow> py_exception option"
  api_error :: "api_site \<Rightarrow> py_exception option"
  execv_error :: "py_exception option"

record issue_world =
  delete_failed_error :: "py_exception option"
  delete_retry_error :: "py_exception option"
  attempt_worlds :: "nat \<Rightarrow> attempt_world"

record issue =
  number :: int
  title :: string
  labels :: "string list"

record scan_world =
  running_filename :: string
  dir_listing :: "string list"
  issues_response :: "py_exception + issue list"
  issue_worlds :: "nat \<Rightarrow> issue_world"

section \<open>The functions of agent.py\<close>

definition nl :: string where
  "nl = [CHR 0x0A]"

definition bq :: string where
  "bq = [CHR 0x60]"

text \<open>The UTF-8 bytes of the check mark, the ballot cross, the cross mark and the robot face.\<close>

definition check_mark :: string where
  "check_mark = [CHR 0xE2, CHR 0x9C, CHR 0x93]"

definition ballot_x :: string where
  "ballot_x = [CHR 0xE2, CHR 0x9C, CHR 0x97]"

definition cross_mark :: string where
  "cross_mark = [CHR 0xE2, CHR 0x9D, CHR 0x8C]"

definition robot_face :: string where
  "robot_face = [CHR 0xF0, CHR 0x9F, CHR 0xA4, CHR 0x96]"

text \<open>
  \<open>github_api\<close> (lines 84-103): one request; the response status is not looked at, so the
  call raises only when \<open>requests.request\<close> does.
\<close>

definition github_api :: "py_exception option \<Rightarrow> string \<Rightarrow> string \<Rightarrow> payload \<Rightarrow> unit io" where
  "github_api answer method path json_data =
     io_bind (emit (Github_api method path json_data))
       (\<lambda>_. case answer of None \<Rightarrow> io_return () | Some e \<Rightarrow> io_raise e)"

text \<open>\<open>subprocess.run(args, check=True)\<close> of a git command.\<close>

definition run_git :: "py_exception option \<Rightarrow> string list \<Rightarrow> unit io" where
  "run_git answer args =
     io_bind (emit (Git args))
       (\<lambda>_. case answer of None \<Rightarrow> io_return () | Some e \<Rightarrow> io_raise e)"

text \<open>
  \<open>generate_evolution_script\<close> (lines 116-188).  The prompt is built from the task and the
  previous attempt; the reads of the program's own source and of SYSTEM\_PROMPT.md are left
  out.  The text of the response goes through the fence extraction.
\<close>

definition generate_evolution_script ::
  "attempt_world \<Rightarrow> string \<Rightarrow> (string \<times> string) option \<Rightarrow> string io" where
  "generate_evolution_script aw task previous_attempt =
     io_bind (emit (Chat_completion task previous_attempt))
       (\<lambda>_. case chat_response aw of
               Inl e \<Rightarrow> io_raise e
             | Inr content \<Rightarrow>
                 (case extract_script content of
                    Inl IndexError \<Rightarrow> io_raise (PyException ''list index out of range'')
                  | Inr script \<Rightarrow> io_return script))"

text \<open>\<open>create_new_version\<close> (lines 191-235).\<close>

definition create_new_version :: "string \<Rightarrow> attempt_world \<Rightarrow> string \<Rightarrow> int \<Rightarrow> string io" where
  "create_new_version current_file aw evolution_script_text version =
     (let script_filename = ''evolve_v'' @ str_int version @ ''.sh'';
          script_with_version =
            substitute_placeholders evolution_script_text version current_file
      in io_bind (emit (Write_file script_filename
                    (''#!/bin/bash'' @ nl @ ''set -e  # Exit on any error'' @ nl @ nl
                       @ script_with_version)))
        (\<lambda>_. io_bind (emit (Chmod script_filename))
        (\<lambda>_. io_bind (emit (Run_bash script_filename))
        (\<lambda>_. case bash_result aw of
                Inl e \<Rightarrow> io_raise e
              | Inr (returncode, stderr) \<Rightarrow>
                  if returncode \<noteq> 0
                  then io_raise (PyException (''Evolution script failed: '' @ stderr))
                  else io_return (''agent_v'' @ str_int version @ ''.py'')))))"

text \<open>\<open>test_new_version\<close> (lines 238-258).\<close>

definition test_new_version :: "attempt_world \<Rightarrow> string \<Rightarrow> bool io" where
  "test_new_version aw agent_path =
     io_try
       (io_bind (emit (Run_test agent_path))
          (\<lambda>_. case test_result aw of
                  Inl e \<Rightarrow> io_raise e
                | Inr returncode \<Rightarrow> io_return (returncode = 0)))
       (\<lambda>error. io_return False)"

text \<open>\<open>create_pull_request\<close> (lines 261-312).\<close>

definition create_pull_request :: "attempt_world \<Rightarrow> int \<Rightarrow> string \<Rightarrow> string \<Rightarrow> unit io" where
  "create_pull_request aw version task branch_name =
     io_bind (run_git (git_error aw 0) [''git'', ''checkout'', ''main''])
     (\<lambda>_. io_bind (run_git (git_error aw 1) [''git'', ''pull''])
     (\<lambda>_. io_bind (run_git (git_error aw 2) [''git'', ''checkout'', ''-b'', branch_name])
     (\<lambda>_. io_bind (run_git (git_error aw 3) [''git'', ''add'', ''.''])
     (\<lambda>_. io_bind (run_git (git_error aw 4)
                     [''git'', ''commit'', ''-m'', ''v'' @ str_int version @ '': '' @ task])
     (\<lambda>_. io_bind (run_git (git_error aw 5) [''git'', ''push'', ''origin'', branch_name])
     (\<lambda>_. io_bind (github_api (api_error aw Pulls_site) ''POST'' ''/pulls''
                     (Json_pull (''Agent Evolution v'' @ str_int version @ '': '' @ task)
                        branch_name ''main''))
     (\<lambda>_. run_git (git_error aw 6) [''git'', ''checkout'', ''main''])))))))"

text \<open>\<open>os.execv(sys.executable, [sys.executable, new_agent_path])\<close>: returns only by raising.\<close>

definition os_execv :: "attempt_world \<Rightarrow> string \<Rightarrow> 'a io" where
  "os_execv aw new_agent_path =
     io_bind (emit (Execv new_agent_path))
       (\<lambda>_. case execv_error aw of
               None \<Rightarrow> io_abort (Replaced new_agent_path)
             | Some e \<Rightarrow> io_raise e)"

definition max_retries :: nat where
  "max_retries = 3"

text \<open>The three comments of lines 397-398, 423-431 and 451-459.\<close>

definition success_comment :: "int \<Rightarrow> nat \<Rightarrow> string" where
  "success_comment version attempt =
     check_mark @ '' Successfully created PR for v'' @ str_int version
       @ (if attempt > 1 then '' (succeeded on attempt '' @ str_nat attempt @ '')'' else [])"

definition human_options :: string where
  "human_options =
     ''**Leaving issue open for human review.**'' @ nl @ nl
       @ ''You can:'' @ nl
       @ ''- Add the '' @ bq @ ''agent-retry'' @ bq @ '' label to try again'' @ nl
       @ ''- Close the issue if task is no longer needed'' @ nl
       @ ''- Manually implement and close the issue''"

definition give_up_heading :: string where
  "give_up_heading = ballot_x @ '' Failed after '' @ str_nat max_retries @ '' attempts.''"

definition tests_failed_comment :: string where
  "tests_failed_comment =
     give_up_heading @ nl @ nl
       @ ''All generated versions failed testing. '' @ human_options"

definition error_comment :: "py_exception \<Rightarrow> string" where
  "error_comment error =
     give_up_heading @ nl @ nl
       @ ''Last error: '' @ str_of_exception error @ nl @ nl @ human_options"

definition issue_path :: "int \<Rightarrow> string \<Rightarrow> string" where
  "issue_path issue_number rest = ''/issues/'' @ str_int issue_number @ rest"

text \<open>What one pass through the body of the attempt loop tells the loop to do next.\<close>

datatype loop_control = Next_attempt "(string \<times> string) option" | Break

definition set_evolution_script :: "string \<Rightarrow> unit io" where
  "set_evolution_script s st = (Inr (), st\<lparr>evolution_script := Some s\<rparr>)"

definition get_evolution_script :: "string option io" where
  "get_evolution_script st = (Inr (evolution_script st), st)"

text \<open>The body of the \<open>try\<close> of lines 373-438.\<close>

definition attempt_body ::
  "string \<Rightarrow> attempt_world \<Rightarrow> int \<Rightarrow> string \<Rightarrow> int \<Rightarrow> nat \<Rightarrow> (string \<times> string) option
     \<Rightarrow> loop_control io" where
  "attempt_body current_file aw issue_number task version attempt previous_attempt =
     io_bind (generate_evolution_script aw task previous_attempt)
     (\<lambda>script. io_bind (set_evolution_script script)
     (\<lambda>_. io_bind (create_new_version current_file aw script version)
     (\<lambda>new_agent_path. io_bind (test_new_version aw new_agent_path)
     (\<lambda>passed.
        if passed then
          io_bind (create_pull_request aw version task (''evolution-v'' @ str_int version))
          (\<lambda>_. io_bind (github_api (api_error aw Success_comment_site) ''POST''
                          (issue_path issue_number ''/comments'')
                          (Json_body (success_comment version attempt)))
          (\<lambda>_. io_bind (github_api (api_error aw Close_site) ''PATCH''
                          (issue_path issue_number []) (Json_state ''closed''))
          (\<lambda>_. os_execv aw new_agent_path)))
        else if attempt = max_retries then
          io_bind (github_api (api_error aw Tests_comment_site) ''POST''
                     (issue_path issue_number ''/comments'') (Json_body tests_failed_comment))
          (\<lambda>_. io_bind (github_api (api_error aw Tests_label_site) ''POST''
                          (issue_path issue_number ''/labels'') (Json_labels [''agent-failed'']))
          (\<lambda>_. io_return Break))
        else
          io_return
            (Next_attempt
               (Some (script, ''New version failed --test flag (exit code non-zero)'')))))))"

text \<open>The \<open>except Exception as error\<close> of lines 440-466.\<close>

definition attempt_handler ::
  "attempt_world \<Rightarrow> int \<Rightarrow> nat \<Rightarrow> py_exception \<Rightarrow> loop_control io" where
  "attempt_handler aw issue_number attempt error =
     io_bind get_evolution_script
     (\<lambda>local.
        if attempt = max_retries then
          io_bind (github_api (api_error aw Error_comment_site) ''POST''
                     (issue_path issue_number ''/comments'') (Json_body (error_comment error)))
          (\<lambda>_. io_bind (github_api (api_error aw Error_label_site) ''POST''
                          (issue_path issue_number ''/labels'') (Json_labels [''agent-failed'']))
          (\<lambda>_. io_return Break))
        else
          io_return
            (Next_attempt
               (Some (case local of Some s \<Rightarrow> s | None \<Rightarrow> ''N/A'', str_of_exception error))))"

definition attempt ::
  "string \<Rightarrow> attempt_world \<Rightarrow> int \<Rightarrow> string \<Rightarrow> int \<Rightarrow> nat \<Rightarrow> (string \<times> string) option
     \<Rightarrow> loop_control io" where
  "attempt current_file aw issue_number task version n previous_attempt =
     io_try (attempt_body current_file aw issue_number task version n previous_attempt)
       (attempt_handler aw issue_number n)"

text \<open>\<open>for attempt in range(1, max_retries + 1)\<close>, over the list of the attempt numbers.\<close>

fun attempt_loop ::
  "string \<Rightarrow> (nat \<Rightarrow> attempt_world) \<Rightarrow> int \<Rightarrow> string \<Rightarrow> int \<Rightarrow> nat list
     \<Rightarrow> (string \<times> string) option \<Rightarrow> unit io" where
  "attempt_loop current_file aws issue_number task version [] previous_attempt = io_return ()"
| "attempt_loop current_file aws issue_number task version (n # rest) previous_attempt =
     io_bind (attempt current_file (aws n) issue_number task version n previous_attempt)
       (\<lambda>control. case control of
          Break \<Rightarrow> io_return ()
        | Next_attempt previous_attempt' \<Rightarrow>
            attempt_loop current_file aws issue_number task version rest previous_attempt')"

text \<open>The body of \<open>for issue in issues\<close>, lines 353-466.\<close>

definition process_issue :: "string \<Rightarrow> issue_world \<Rightarrow> int \<Rightarrow> issue \<Rightarrow> unit io" where
  "process_issue current_file iw version i =
     (if ''agent-failed'' \<in> set (labels i) \<and> ''agent-retry'' \<notin> set (labels i) then io_return ()
      else
        io_bind
          (if ''agent-retry'' \<in> set (labels i) then
             io_bind (github_api (delete_failed_error iw) ''DELETE''
                        (issue_path (number i) ''/labels/agent-failed'') No_json)
               (\<lambda>_. github_api (delete_retry_error iw) ''DELETE''
                       (issue_path (number i) ''/labels/agent-retry'') No_json)
           else io_return ())
          (\<lambda>_. attempt_loop current_file (attempt_worlds iw) (number i) (title i) version
                  [1..<max_retries + 1] None))"

fun for_issues ::
  "string \<Rightarrow> (nat \<Rightarrow> issue_world) \<Rightarrow> int \<Rightarrow> nat \<Rightarrow> issue list \<Rightarrow> unit io" where
  "for_issues current_file iws version k [] = io_return ()"
| "for_issues current_file iws version k (i # rest) =
     io_bind (process_issue current_file (iws k) version i)
       (\<lambda>_. for_issues current_file iws version (Suc k) rest)"

text \<open>One pass through the body of \<open>while True\<close>, lines 344-476.\<close>

definition scan :: "scan_world \<Rightarrow> unit io" where
  "scan w =
     io_try
       (io_bind (emit List_dir)
        (\<lambda>_. io_bind (io_return (get_next_version (dir_listing w)))
        (\<lambda>version. io_bind (emit (Github_api ''GET'' ''/issues?labels=agent-task&state=open'' No_json))
        (\<lambda>_. case issues_response w of
                Inl e \<Rightarrow> io_raise e
              | Inr issues \<Rightarrow>
                  io_bind (for_issues (running_filename w) (issue_worlds w) version 0 issues)
                    (\<lambda>_. emit (Sleep 30))))))
       (\<lambda>error.
          io_bind (emit (Print (cross_mark @ '' Error in main loop: '' @ str_of_exception error)))
            (\<lambda>_. emit (Sleep 60)))"

text \<open>
  The start of \<open>main\<close>, lines 325-341.  The three configuration values are \<open>None\<close> when the
  variable is not set; \<open>all([...])\<close> also rejects an empty string.
\<close>

definition truthy :: "string option \<Rightarrow> bool" where
  "truthy v = (case v of None \<Rightarrow> False | Some s \<Rightarrow> s \<noteq> [])"

fun print_all :: "string list \<Rightarrow> unit io" where
  "print_all [] = io_return ()"
| "print_all (l # ls) = io_bind (emit (Print l)) (\<lambda>_. print_all ls)"

definition main_startup ::
  "string list \<Rightarrow> string option \<Rightarrow> string option \<Rightarrow> string option \<Rightarrow> unit io" where
  "main_startup argv api_key github_token repo =
     (if ''--test'' \<in> set argv then
        io_bind (emit (Print ''OK'')) (\<lambda>_. io_abort (Exit 0))
      else if \<not> (truthy api_key \<and> truthy github_token \<and> truthy repo) then
        io_bind (print_all
                   [''Error: Missing required environment variables'',
                    ''Required: OPENAI_API_KEY, GITHUB_TOKEN, REPO'',
                    nl @ ''Create .env file with:'',
                    ''  OPENAI_API_KEY=sk-...'',
                    ''  GITHUB_TOKEN=ghp_...'',
                    ''  REPO=username/repo-name''])
          (\<lambda>_. io_abort (Exit 1))
      else
        print_all
          [robot_face @ '' Agent monitoring '' @ (case repo of None \<Rightarrow> ''None'' | Some r \<Rightarrow> r)
             @ '' for '' @ [CHR 0x27] @ ''agent-task'' @ [CHR 0x27] @ '' issues...'',
           ''Press Ctrl+C to stop'' @ nl])"

section \<open>Observations on traces and worlds, used to state the properties\<close>

text \<open>The three phases of a cycle, and the phase an external call belongs to.\<close>

datatype phase = Generating | Building | Validating

fun phase_of :: "event \<Rightarrow> phase option" where
  "phase_of (Chat_completion task previous_attempt) = Some Generating"
| "phase_of (Run_bash script_filename) = Some Building"
| "phase_of (Run_test agent_path) = Some Validating"
| "phase_of e = None"

definition phases :: "event list \<Rightarrow> phase list" where
  "phases es = List.map_filter phase_of es"

text \<open>The number of cycles begun: every cycle begins with one call of the generator.\<close>

definition cycles :: "event list \<Rightarrow> nat" where
  "cycles es = count_list (phases es) Generating"

text \<open>
  The generate/build/validate sequence of an attempt succeeds when the generator returns a
  text, the evolution script exits with 0 and the self-check exits with 0.
\<close>

definition gbv_succeeds :: "attempt_world \<Rightarrow> bool" where
  "gbv_succeeds aw =
     (case chat_response aw of
        Inl e \<Rightarrow> False
      | Inr content \<Rightarrow>
          (case bash_result aw of
             Inl e \<Rightarrow> False
           | Inr (returncode, stderr) \<Rightarrow> returncode = 0 \<and> test_result aw = Inr 0))"

text \<open>
  The phases a cycle goes through: generate, then build when the generator returned, then
  validate when the build succeeded.
\<close>

definition phases_of_attempt :: "attempt_world \<Rightarrow> phase list" where
  "phases_of_attempt aw =
     (case chat_response aw of
        Inl e \<Rightarrow> [Generating]
      | Inr content \<Rightarrow>
          (case bash_result aw of
             Inl e \<Rightarrow> [Generating, Building]
           | Inr (returncode, stderr) \<Rightarrow>
               if returncode = 0 then [Generating, Building, Validating]
               else [Generating, Building]))"

text \<open>
  The answers to the version-control and hosting steps that follow a successful validation,
  in the order of the calls: six git commands, the pull request, the return to the main line,
  the success comment and the closing of the issue.  \<open>publish_error\<close> is the first exception
  among them.
\<close>

definition publish_steps :: "attempt_world \<Rightarrow> py_exception option list" where
  "publish_steps aw =
     [git_error aw 0, git_error aw 1, git_error aw 2, git_error aw 3, git_error aw 4,
      git_error aw 5, api_error aw Pulls_site, git_error aw 6,
      api_error aw Success_comment_site, api_error aw Close_site]"

fun first_error :: "py_exception option list \<Rightarrow> py_exception option" where
  "first_error [] = None"
| "first_error (None # rest) = first_error rest"
| "first_error (Some e # rest) = Some e"

definition publish_error :: "attempt_world \<Rightarrow> py_exception option" where
  "publish_error aw = first_error (publish_steps aw)"

text \<open>The script an attempt works with: the text extracted from the generator's response.\<close>

definition script_of :: "attempt_world \<Rightarrow> string" where
  "script_of aw =
     (case chat_response aw of
        Inl e \<Rightarrow> []
      | Inr content \<Rightarrow> (case extract_script content of Inl e \<Rightarrow> [] | Inr script \<Rightarrow> script))"

text \<open>The requests of the two outcomes of a task.\<close>

definition success_report :: "int \<Rightarrow> int \<Rightarrow> nat \<Rightarrow> event" where
  "success_report issue_number version attempt_index =
     Github_api ''POST'' (issue_path issue_number ''/comments'')
       (Json_body (success_comment version attempt_index))"

definition failed_label_request :: "int \<Rightarrow> event" where
  "failed_label_request issue_number =
     Github_api ''POST'' (issue_path issue_number ''/labels'') (Json_labels [''agent-failed''])"

fun is_give_up_comment :: "int \<Rightarrow> event \<Rightarrow> bool" where
  "is_give_up_comment issue_number (Github_api method path (Json_body text)) =
     (method = ''POST'' \<and> path = issue_path issue_number ''/comments''
      \<and> prefix give_up_heading text)"
| "is_give_up_comment issue_number e = False"



text \<open>
  The version an external call works on: the evolution script file, the artifact path, the
  branch.  Calls that name no file satisfy the predicate.
\<close>

fun uses_version :: "int \<Rightarrow> event \<Rightarrow> bool" where
  "uses_version v (Write_file script_filename content) =
     (script_filename = ''evolve_v'' @ str_int v @ ''.sh'')"
| "uses_version v (Chmod script_filename) = (script_filename = ''evolve_v'' @ str_int v @ ''.sh'')"
| "uses_version v (Run_bash script_filename) = (script_filename = ''evolve_v'' @ str_int v @ ''.sh'')"
| "uses_version v (Run_test agent_path) = (agent_path = ''agent_v'' @ str_int v @ ''.py'')"
| "uses_version v (Execv agent_path) = (agent_path = ''agent_v'' @ str_int v @ ''.py'')"
| "uses_version v e = True"

text \<open>A computation that only appends to the trace, and only events satisfying \<open>P\<close>.\<close>

definition emits :: "(event \<Rightarrow> bool) \<Rightarrow> 'a io \<Rightarrow> bool" where
  "emits P m = (\<forall>st. \<exists>es. trace (snd (m st)) = trace st @ es \<and> list_all P es)"

text \<open>The three calls \<open>create_new_version\<close> makes for a script and a version.\<close>

definition build_events :: "string \<Rightarrow> string \<Rightarrow> int \<Rightarrow> event list" where
  "build_events current_file script version =
     [Write_file (''evolve_v'' @ str_int version @ ''.sh'')
        (''#!/bin/bash'' @ nl @ ''set -e  # Exit on any error'' @ nl @ nl
           @ substitute_placeholders script version current_file),
      Chmod (''evolve_v'' @ str_int version @ ''.sh''),
      Run_bash (''evolve_v'' @ str_int version @ ''.sh'')]"

text \<open>
  Every external call an attempt for task \<open>i\<close> at version \<open>v\<close> can make: the generator, the
  build and test calls on the files of version \<open>v\<close>, git commands, the pull request, comments
  on task \<open>i\<close>, closing task \<open>i\<close>, and adding the failure label to task \<open>i\<close>.
\<close>

fun attempt_event :: "int \<Rightarrow> int \<Rightarrow> event \<Rightarrow> bool" where
  "attempt_event i v (Chat_completion task previous_attempt) = True"
| "attempt_event i v (Write_file script_filename content) =
     (script_filename = ''evolve_v'' @ str_int v @ ''.sh'')"
| "attempt_event i v (Chmod script_filename) = (script_filename = ''evolve_v'' @ str_int v @ ''.sh'')"
| "attempt_event i v (Run_bash script_filename) = (script_filename = ''evolve_v'' @ str_int v @ ''.sh'')"
| "attempt_event i v (Run_test agent_path) = (agent_path = ''agent_v'' @ str_int v @ ''.py'')"
| "attempt_event i v (Execv agent_path) = (agent_path = ''agent_v'' @ str_int v @ ''.py'')"
| "attempt_event i v (Git args) = True"
| "attempt_event i v (Github_api method path json_data) =
     (method = ''POST'' \<and> path = ''/pulls''
      \<or> method = ''POST'' \<and> path = issue_path i ''/comments''
      \<or> method = ''PATCH'' \<and> path = issue_path i []
      \<or> method = ''POST'' \<and> path = issue_path i ''/labels''
          \<and> json_data = Json_labels [''agent-failed''])"
| "attempt_event i v List_dir = False"
| "attempt_event i v (Sleep seconds) = False"
| "attempt_event i v (Print text) = False"

section \<open>Concrete worlds, for the instances of the theorems\<close>

text \<open>
  An attempt in which everything succeeds: the generator answers with a fenced script, the
  build and the self-check exit with 0, and no later call raises.
\<close>

definition smooth_attempt :: attempt_world where
  "smooth_attempt =
     \<lparr>chat_response =
        Inr (''Sure:'' @ nl @ bash_fence @ nl @ ''cp CURRENT_AGENT agent_vN.py'' @ nl @ fence),
      bash_result = Inr (0, []),
      test_result = Inr 0,
      git_error = (\<lambda>k. None),
      api_error = (\<lambda>site. None),
      execv_error = None\<rparr>"

text \<open>The same attempt with a self-check that exits with 1.\<close>

definition failing_test_attempt :: attempt_world where
  "failing_test_attempt = smooth_attempt\<lparr>test_result := Inr 1\<rparr>"

text \<open>The same attempt with a \<open>git push\<close> that exits with a non-zero code.\<close>

definition failing_push_attempt :: attempt_world where
  "failing_push_attempt =
     smooth_attempt
       \<lparr>git_error := (\<lambda>k. if k = 5 then Some (CalledProcessError ''git push failed'') else None)\<rparr>"

definition initial_state :: state where
  "initial_state = \<lparr>trace = [], evolution_script = None\<rparr>"

text \<open>A task queue whose label requests return, with a self-check that fails at every attempt.\<close>

definition failing_issue_world :: issue_world where
  "failing_issue_world =
     \<lparr>delete_failed_error = None, delete_retry_error = None,
      attempt_worlds = (\<lambda>n. failing_test_attempt)\<rparr>"

definition retry_issue :: issue where
  "retry_issue = \<lparr>number = 7, title = ''Add logging'',
                   labels = [''agent-task'', ''agent-failed'', ''agent-retry'']\<rparr>"

definition failed_issue :: issue where
  "failed_issue = \<lparr>number = 8, title = ''Add metrics'',
                    labels = [''agent-task'', ''agent-failed'']\<rparr>"

definition failing_scan_world :: scan_world where
  "failing_scan_world =
     \<lparr>running_filename = ''agent_v2.py'',
      dir_listing = [''agent.py'', ''agent_v1.py'', ''agent_v2.py'', ''evolve_v1.sh'', ''evolve_v2.sh''],
      issues_response = Inr [failed_issue, retry_issue],
      issue_worlds = (\<lambda>k. failing_issue_world)\<rparr>"

text \<open>The external calls of a cycle that gets as far as the self-check.\<close>

definition gbv_events ::
  "string \<Rightarrow> attempt_world \<Rightarrow> string \<Rightarrow> int \<Rightarrow> (string \<times> string) option \<Rightarrow> event list" where
  "gbv_events cf aw task version prev =
     Chat_completion task prev # build_events cf (script_of aw) version
       @ [Run_test (''agent_v'' @ str_int version @ ''.py'')]"

text \<open>
  A sequence of external calls, each with its answer, run in order up to the first one that
  raises; and the ten calls that follow a successful validation, with their answers.
\<close>

fun run_steps :: "(py_exception option \<times> event) list \<Rightarrow> unit io" where
  "run_steps [] = io_return ()"
| "run_steps ((answer, call) # rest) =
     io_bind (emit call) (\<lambda>_. case answer of None \<Rightarrow> run_steps rest | Some e \<Rightarrow> io_raise e)"

definition publish_calls ::
  "attempt_world \<Rightarrow> int \<Rightarrow> string \<Rightarrow> int \<Rightarrow> nat \<Rightarrow> (py_exception option \<times> event) list" where
  "publish_calls aw issue_number task version attempt_index =
     [(git_error aw 0, Git [''git'', ''checkout'', ''main'']),
      (git_error aw 1, Git [''git'', ''pull'']),
      (git_error aw 2, Git [''git'', ''checkout'', ''-b'', ''evolution-v'' @ str_int version]),
      (git_error aw 3, Git [''git'', ''add'', ''.'']),
      (git_error aw 4, Git [''git'', ''commit'', ''-m'', ''v'' @ str_int version @ '': '' @ task]),
      (git_error aw 5, Git [''git'', ''push'', ''origin'', ''evolution-v'' @ str_int version]),
      (api_error aw Pulls_site,
       Github_api ''POST'' ''/pulls''
         (Json_pull (''Agent Evolution v'' @ str_int version @ '': '' @ task)
            (''evolution-v'' @ str_int version) ''main'')),
      (git_error aw 6, Git [''git'', ''checkout'', ''main'']),
      (api_error aw Success_comment_site, success_report issue_number version attempt_index),
      (api_error aw Close_site,
       Github_api ''PATCH'' (issue_path issue_number []) (Json_state ''closed''))]"

text \<open>The calls of such a sequence that are made: all up to and including the first that raises.\<close>

fun calls_made :: "(py_exception option \<times> event) list \<Rightarrow> event list" where
  "calls_made [] = []"
| "calls_made ((None, call) # rest) = call # calls_made rest"
| "calls_made ((Some e, call) # rest) = [call]"

text \<open>The two calls of each give-up path (lines 432-436 and 460-464), with their answers.\<close>

definition give_up_tests_calls ::
  "attempt_world \<Rightarrow> int \<Rightarrow> (py_exception option \<times> event) list" where
  "give_up_tests_calls aw i =
     [(api_error aw Tests_comment_site,
       Github_api ''POST'' (issue_path i ''/comments'') (Json_body tests_failed_comment)),
      (api_error aw Tests_label_site, failed_label_request i)]"

definition give_up_error_calls ::
  "attempt_world \<Rightarrow> int \<Rightarrow> py_exception \<Rightarrow> (py_exception option \<times> event) list" where
  "give_up_error_calls aw i e =
     [(api_error aw Error_comment_site,
       Github_api ''POST'' (issue_path i ''/comments'') (Json_body (error_comment e))),
      (api_error aw Error_label_site, failed_label_request i)]"

text \<open>
  Attempt worlds per attempt number: a self-check that fails at the first attempt only, a
  \<open>git push\<close> that fails at the first attempt only, and a \<open>git push\<close> that fails at every
  attempt; a scan with one open task in the last of these worlds.
\<close>

definition test_fails_once :: "nat \<Rightarrow> attempt_world" where
  "test_fails_once n = (if n = 1 then failing_test_attempt else smooth_attempt)"

definition push_fails_once :: "nat \<Rightarrow> attempt_world" where
  "push_fails_once n = (if n = 1 then failing_push_attempt else smooth_attempt)"

definition push_always_fails :: "nat \<Rightarrow> attempt_world" where
  "push_always_fails n = failing_push_attempt"

definition push_failing_scan_world :: scan_world where
  "push_failing_scan_world =
     \<lparr>running_filename = ''agent.py'',
      dir_listing = [''agent.py''],
      issues_response = Inr [\<lparr>number = 42, title = ''Add logging'', labels = [''agent-task'']\<rparr>],
      issue_worlds =
        (\<lambda>k. \<lparr>delete_failed_error = None, delete_retry_error = None,
               attempt_worlds = push_always_fails\<rparr>)\<rparr>"

text \<open>
  An attempt succeeds when its generate/build/validate sequence succeeds and no call of the
  publication that follows raises: the ten version-control and hosting steps and the
  replacement of the process.
\<close>

definition attempt_ok :: "attempt_world \<Rightarrow> bool" where
  "attempt_ok aw = (gbv_succeeds aw \<and> publish_error aw = None \<and> execv_error aw = None)"

text \<open>The four requests of the two give-up paths return.\<close>

definition give_up_returns :: "attempt_world \<Rightarrow> bool" where
  "give_up_returns aw =
     (api_error aw Tests_comment_site = None \<and> api_error aw Tests_label_site = None
      \<and> api_error aw Error_comment_site = None \<and> api_error aw Error_label_site = None)"

section \<open>Properties of str.replace\<close>












lemma not_digit [simp]:
  "\<not> is_digit CHR ''v''" "\<not> is_digit CHR ''N''" "\<not> is_digit CHR ''C''"
  by (simp_all add: is_digit_def)




section \<open>Properties of get\_next\_version\<close>

lemma dot_not_digit [simp]: "\<not> is_digit CHR ''.''"
  by (simp add: is_digit_def)

lemma takeWhile_digits_dot:
  "list_all is_digit ds \<Longrightarrow> takeWhile is_digit (ds @ CHR ''.'' # r) = ds"
  by (induction ds) simp_all

lemma dropWhile_digits_dot:
  "list_all is_digit ds \<Longrightarrow> dropWhile is_digit (ds @ CHR ''.'' # r) = CHR ''.'' # r"
  by (induction ds) simp_all

lemma artifact_version_iff:
  "artifact_version f = Some n \<longleftrightarrow>
     (\<exists>ds. ds \<noteq> [] \<and> list_all is_digit ds \<and> f = ''agent_v'' @ ds @ ''.py'' \<and> n = py_int ds)"
proof
  assume "artifact_version f = Some n"
  then have a: "takeWhile is_digit (drop 7 f) \<noteq> []"
      "f = ''agent_v'' @ takeWhile is_digit (drop 7 f) @ ''.py''"
      "n = py_int (takeWhile is_digit (drop 7 f))"
    by (auto simp: artifact_version_def Let_def split: if_splits)
  have "list_all is_digit (takeWhile is_digit (drop 7 f))"
    by (simp add: list_all_iff) (meson set_takeWhileD)
  with a show "\<exists>ds. ds \<noteq> [] \<and> list_all is_digit ds \<and> f = ''agent_v'' @ ds @ ''.py'' \<and> n = py_int ds"
    by blast
next
  assume "\<exists>ds. ds \<noteq> [] \<and> list_all is_digit ds \<and> f = ''agent_v'' @ ds @ ''.py'' \<and> n = py_int ds"
  then obtain ds where d: "ds \<noteq> []" "list_all is_digit ds" "f = ''agent_v'' @ ds @ ''.py''"
      "n = py_int ds"
    by blast
  have "takeWhile is_digit (drop 7 f) = ds"
    using d(2,3) takeWhile_digits_dot [of ds "''py''"] by simp
  then show "artifact_version f = Some n"
    using d by (simp add: artifact_version_def)
qed

lemma artifact_is_found:
  assumes "artifact_version f = Some n"
  shows "startswith f ''agent_v''" "endswith f ''.py''" "map_option py_int (re_search f) = Some n"
proof -
  from assms obtain ds where d: "ds \<noteq> []" "list_all is_digit ds"
      "f = ''agent_v'' @ ds @ ''.py''" "n = py_int ds"
    unfolding artifact_version_iff by blast
  show "startswith f ''agent_v''" using d(3) by (simp add: startswith_def)
  show "endswith f ''.py''" using d(3) by (simp add: endswith_def suffix_def)
  have "match_here f = Some ds"
    using d(1,2,3) takeWhile_digits_dot [of ds "''py''"] dropWhile_digits_dot [of ds "''py''"]
    by (simp add: match_here_def)
  then have "re_search f = Some ds" using d(3) by simp
  then show "map_option py_int (re_search f) = Some n" using d(4) by simp
qed

lemma map_filter_cong_set:
  "(\<And>x. x \<in> set xs \<Longrightarrow> f x = g x) \<Longrightarrow> List.map_filter f xs = List.map_filter g xs"
  by (simp add: List.map_filter_def cong: filter_cong map_cong)

lemma map_filter_filter_Some:
  "List.map_filter f (filter (\<lambda>x. f x \<noteq> None) xs) = List.map_filter f xs"
  by (induction xs) (auto simp: List.map_filter_simps split: option.splits)

text \<open>
  Claim C2 (version registry), as the code supports it.  For every directory listing in which
  each name that starts with \<open>agent_v\<close> and ends with \<open>.py\<close> has the form
  \<open>agent_v<digits>.py\<close>, \<open>get_next_version\<close> returns one more than the largest version number
  of the artifacts, and 1 when there is no artifact.  The function is a function of the
  listing alone: the same listing gives the same value.
\<close>

theorem get_next_version_artifacts:
  assumes "\<forall>f \<in> set listing.
             startswith f ''agent_v'' \<and> endswith f ''.py'' \<longrightarrow> artifact_version f \<noteq> None"
  shows "get_next_version listing = next_version_spec listing"
proof -
  let ?glob = "\<lambda>f. startswith f ''agent_v'' \<and> endswith f ''.py''"
  let ?existing = "filter ?glob listing"
  have glob: "?glob f \<longleftrightarrow> artifact_version f \<noteq> None" if "f \<in> set listing" for f
    using that assms artifact_is_found(1,2) [of f] by auto
  then have ex: "?existing = filter (\<lambda>f. artifact_version f \<noteq> None) listing"
    by (intro filter_cong) auto
  have same: "map_option py_int (re_search f) = artifact_version f" if "f \<in> set ?existing" for f
  proof -
    from that glob obtain n where "artifact_version f = Some n" by auto
    then show ?thesis using artifact_is_found(3) [of f n] by simp
  qed
  have vs: "List.map_filter (\<lambda>filename. map_option py_int (re_search filename)) ?existing
          = List.map_filter artifact_version listing"
    using map_filter_cong_set [of ?existing "\<lambda>f. map_option py_int (re_search f)" artifact_version]
      same ex map_filter_filter_Some [of artifact_version listing]
    by simp
  have empty: "List.map_filter artifact_version listing = []" if "?existing = []"
    using that unfolding ex by (simp add: List.map_filter_def filter_empty_conv)
  show ?thesis
    unfolding get_next_version_def next_version_spec_def Let_def vs
    using empty by auto
qed

text \<open>The theorem at a directory holding versions 1 and 12 and two unrelated files.\<close>

theorem get_next_version_artifacts_witness:
  "get_next_version [''agent_v1.py'', ''agent_v12.py'', ''agent.py'', ''evolve_v12.sh'']
     = next_version_spec [''agent_v1.py'', ''agent_v12.py'', ''agent.py'', ''evolve_v12.sh'']
   \<and> next_version_spec [''agent_v1.py'', ''agent_v12.py'', ''agent.py'', ''evolve_v12.sh''] = 13"
proof -
  have h: "\<forall>f \<in> set [''agent_v1.py'', ''agent_v12.py'', ''agent.py'', ''evolve_v12.sh''].
             startswith f ''agent_v'' \<and> endswith f ''.py'' \<longrightarrow> artifact_version f \<noteq> None"
    by code_simp
  have e: "next_version_spec [''agent_v1.py'', ''agent_v12.py'', ''agent.py'', ''evolve_v12.sh''] = 13"
    by code_simp
  show ?thesis using get_next_version_artifacts [OF h] e by simp
qed

text \<open>
  Claim C2 as stated quantifies over every filesystem state.  The code keeps every name that
  starts with \<open>agent_v\<close> and ends with \<open>.py\<close> and then searches the pattern anywhere in the
  name.  So \<open>agent_v9.py.bak.py\<close>, which is not an artifact name, counts as version 9, while
  \<open>xagent_v20.py\<close>, in which the pattern occurs as well, does not count.  With the artifact
  \<open>agent_v1.py\<close> beside them the code returns 10: neither 2, one more than the largest
  artifact, nor 21, one more than the largest number the pattern finds.
\<close>

theorem get_next_version_loose_match:
  "get_next_version [''agent_v1.py'', ''agent_v9.py.bak.py'', ''xagent_v20.py''] = 10
   \<and> next_version_spec [''agent_v1.py'', ''agent_v9.py.bak.py'', ''xagent_v20.py''] = 2
   \<and> next_version_anywhere [''agent_v1.py'', ''agent_v9.py.bak.py'', ''xagent_v20.py''] = 21"
  by code_simp

section \<open>Properties of the script extraction\<close>

lemma py_split_Nil: "sep \<noteq> [] \<Longrightarrow> py_split sep [] = [[]]"
  by (simp add: py_split.simps)

lemma py_split_match:
  "sep \<noteq> [] \<Longrightarrow> prefix sep s \<Longrightarrow> py_split sep s = [] # py_split sep (drop (length sep) s)"
  by (subst py_split.simps) auto

lemma py_split_step:
  "sep \<noteq> [] \<Longrightarrow> \<not> prefix sep (c # cs) \<Longrightarrow>
   py_split sep (c # cs) =
     (case py_split sep cs of [] \<Rightarrow> [[c]] | p # ps \<Rightarrow> (c # p) # ps)"
  by (subst py_split.simps) (simp split: list.splits)

lemma py_split_no_sep:
  assumes "sep \<noteq> []"
  shows "\<not> sublist sep s \<Longrightarrow> py_split sep s = [s]"
proof (induction s)
  case Nil
  then show ?case using assms by (simp add: py_split_Nil)
next
  case (Cons c cs)
  then have "\<not> prefix sep (c # cs)" "\<not> sublist sep cs"
    by (simp_all add: sublist_Cons_right)
  then show ?case using Cons.IH assms by (simp add: py_split_step)
qed

lemma py_split_first:
  assumes "sep \<noteq> []"
  shows "\<not> sublist sep (a @ butlast sep) \<Longrightarrow> py_split sep (a @ sep @ rest) = a # py_split sep rest"
proof (induction a)
  case Nil
  then show ?case using assms by (simp add: py_split_match)
next
  case (Cons c a)
  have "\<not> prefix sep ((c # a) @ sep @ rest)"
  proof
    assume p: "prefix sep ((c # a) @ sep @ rest)"
    have "(c # a) @ sep @ rest = ((c # a) @ butlast sep) @ (last sep # rest)"
      using assms by simp
    moreover have "length sep \<le> length ((c # a) @ butlast sep)" by simp
    ultimately have "prefix sep ((c # a) @ butlast sep)"
      using p by (metis prefix_length_prefix prefixI)
    then show False using Cons.prems by auto
  qed
  moreover have "\<not> sublist sep (a @ butlast sep)"
    using Cons.prems by (simp add: sublist_Cons_right)
  ultimately show ?case using Cons.IH assms by (simp add: py_split_step)
qed

lemma py_split_two:
  assumes "sep \<noteq> []"
  shows "sublist sep s \<Longrightarrow> 2 \<le> length (py_split sep s)"
proof (induction s)
  case Nil
  then show ?case using assms by simp
next
  case (Cons c cs)
  show ?case
  proof (cases "prefix sep (c # cs)")
    case True
    have "py_split sep (drop (length sep) (c # cs)) \<noteq> []"
      by (subst py_split.simps) (auto split: list.splits)
    then show ?thesis using True assms
      by (cases "py_split sep (drop (length sep) (c # cs))") (simp_all add: py_split_match)
  next
    case False
    then have "sublist sep cs" using Cons.prems by (simp add: sublist_Cons_right)
    then have "2 \<le> length (py_split sep cs)" by (rule Cons.IH)
    then show ?thesis using False assms
      by (cases "py_split sep cs") (simp_all add: py_split_step)
  qed
qed

lemma py_split_nonempty: "py_split sep s \<noteq> []"
  by (subst py_split.simps) (auto split: list.splits)

lemma fence_nonempty [simp]: "fence \<noteq> []" "bash_fence \<noteq> []"
  by (simp_all add: fence_def bash_fence_def)

lemma between_total:
  assumes "sep \<noteq> []" "sublist sep script"
  shows "\<exists>r. between sep script = Inr r"
proof -
  have "1 < length (py_split sep script)" using py_split_two [OF assms] by simp
  moreover have "0 < length (py_split fence part)" for part
    using py_split_nonempty [of fence part] by simp
  ultimately show ?thesis by (simp add: between_def py_index_def)
qed

lemma leftmost_occurrence:
  assumes "sep \<noteq> []"
  shows "sublist sep t \<Longrightarrow> \<exists>p r. t = p @ sep @ r \<and> \<not> sublist sep (p @ butlast sep)"
proof (induction t)
  case Nil
  then show ?case using assms by simp
next
  case (Cons c cs)
  show ?case
  proof (cases "prefix sep (c # cs)")
    case True
    then obtain r where "c # cs = [] @ sep @ r" by (auto simp: prefix_def)
    moreover have "\<not> sublist sep ([] @ butlast sep)"
      using assms sublist_length_le [of sep "butlast sep"] by (cases sep) auto
    ultimately show ?thesis by blast
  next
    case False
    then have "sublist sep cs" using Cons.prems by (simp add: sublist_Cons_right)
    then obtain p r where pr: "cs = p @ sep @ r" "\<not> sublist sep (p @ butlast sep)"
      using Cons.IH by blast
    have "\<not> prefix sep ((c # p) @ butlast sep)"
    proof
      assume "prefix sep ((c # p) @ butlast sep)"
      moreover have "prefix ((c # p) @ butlast sep) (c # cs)"
        using pr(1) assms by (simp add: prefix_def) (metis append_butlast_last_id append_assoc)
      ultimately show False using False by (meson prefix_order.trans)
    qed
    then have "\<not> sublist sep ((c # p) @ butlast sep)"
      using pr(2) by (simp add: sublist_Cons_right)
    moreover have "c # cs = (c # p) @ sep @ r" using pr(1) by simp
    ultimately show ?thesis by blast
  qed
qed

lemma first_piece_of_fenced:
  assumes "\<not> sublist fence (body @ butlast fence)" "rest = [] \<or> hd rest \<noteq> CHR 0x60"
  shows "\<exists>ps. py_split fence (hd (py_split bash_fence (body @ fence @ rest))) = body # ps"
proof (cases "sublist bash_fence (body @ fence @ rest)")
  case False
  then have "py_split bash_fence (body @ fence @ rest) = [body @ fence @ rest]"
    by (simp add: py_split_no_sep)
  moreover have "py_split fence (body @ fence @ rest) = body # py_split fence rest"
    using assms(1) by (simp add: py_split_first)
  ultimately show ?thesis by simp
next
  case True
  then obtain p r where pr: "body @ fence @ rest = p @ bash_fence @ r"
      "\<not> sublist bash_fence (p @ butlast bash_fence)"
    using leftmost_occurrence [OF fence_nonempty(2) True] by blast
  then have hd: "hd (py_split bash_fence (body @ fence @ rest)) = p"
    by (simp add: py_split_first)
  have nb: "\<not> sublist fence body"
    using assms(1) by (meson sublist_append_rightI sublist_order.order.trans prefix_imp_sublist prefixI)
  from pr(1) obtain u where
    u: "body = p @ u \<and> u @ fence @ rest = bash_fence @ r \<or>
        body @ u = p \<and> fence @ rest = u @ bash_fence @ r"
    using append_eq_append_conv2 [of body "fence @ rest" p "bash_fence @ r"] by blast
  show ?thesis
  proof (cases "u = []")
    case True
    then have "p = body" using u by auto
    then show ?thesis using hd nb by (simp add: py_split_no_sep)
  next
    case ne: False
    from u show ?thesis
    proof
      assume a: "body = p @ u \<and> u @ fence @ rest = bash_fence @ r"
      then have "prefix fence (u @ fence @ rest)" by (simp add: bash_fence_def)
      moreover have "prefix (u @ butlast fence) (u @ fence @ rest)" by (simp add: fence_def)
      moreover have "length fence \<le> length (u @ butlast fence)"
        using ne by (cases u) (simp_all add: fence_def)
      ultimately have "prefix fence (u @ butlast fence)"
        by (meson prefix_length_prefix)
      then have "sublist fence (p @ u @ butlast fence)"
        by (meson prefix_imp_sublist sublist_append_leftI sublist_order.order.trans)
      then show ?thesis using assms(1) a by simp
    next
      assume b: "body @ u = p \<and> fence @ rest = u @ bash_fence @ r"
      then have "\<exists>q. u = fence @ q"
        using ne assms(2)
        by (cases u; cases "tl u"; cases "tl (tl u)")
          (auto simp: fence_def bash_fence_def)
      then obtain q where "p = body @ fence @ q" using b by auto
      then show ?thesis using hd assms(1) by (simp add: py_split_first)
    qed
  qed
qed

lemma between_bash_closed:
  assumes "\<not> sublist bash_fence (a @ butlast bash_fence)"
    and "\<not> sublist fence (body @ butlast fence)"
    and "rest = [] \<or> hd rest \<noteq> CHR 0x60"
  shows "between bash_fence (a @ bash_fence @ body @ fence @ rest) = Inr (py_strip body)"
proof -
  have s: "py_split bash_fence (a @ bash_fence @ body @ fence @ rest)
         = a # py_split bash_fence (body @ fence @ rest)"
    using assms(1) by (simp add: py_split_first)
  obtain x xs where x: "py_split bash_fence (body @ fence @ rest) = x # xs"
    using py_split_nonempty [of bash_fence "body @ fence @ rest"] by (meson list.exhaust)
  obtain ps where "py_split fence x = body # ps"
    using first_piece_of_fenced [OF assms(2,3)] x by auto
  then show ?thesis using s x by (simp add: between_def py_index_def)
qed

lemma between_fence_closed:
  assumes "\<not> sublist fence (a @ butlast fence)"
    and "\<not> sublist fence (body @ butlast fence)"
  shows "between fence (a @ fence @ body @ fence @ rest) = Inr (py_strip body)"
proof -
  have nb: "\<not> sublist fence body"
    using assms(2) by (meson sublist_append_rightI sublist_order.order.trans prefix_imp_sublist prefixI)
  have "py_split fence (a @ fence @ body @ fence @ rest) = a # body # py_split fence rest"
    using assms by (simp add: py_split_first)
  then show ?thesis using nb by (simp add: between_def py_index_def py_split_no_sep)
qed

lemma between_unclosed:
  assumes "sep \<noteq> []" "\<not> sublist sep (a @ butlast sep)" "\<not> sublist fence body"
    and "sublist fence sep"
  shows "between sep (a @ sep @ body) = Inr (py_strip body)"
proof -
  have "\<not> sublist sep body" using assms(3,4) by (meson sublist_order.order.trans)
  then have "py_split sep (a @ sep @ body) = [a, body]"
    using assms(1,2) py_split_first [of sep a body] by (simp add: py_split_no_sep)
  then show ?thesis using assms(3) by (simp add: between_def py_index_def py_split_no_sep)
qed

lemma fence_in_bash_fence: "sublist fence bash_fence"
  by (simp add: bash_fence_def)

text \<open>
  Claim C9 (fence extraction).  For every response text \<open>s\<close> the extraction returns a script
  and raises nothing; a text with no fence is returned as it is.  When the text holds a
  \<open>bash\<close>-tagged fence, the result is the stripped text between the first such fence and the
  fence that closes it (three backquotes not followed by a fourth), whatever generic fences
  stand before it; a \<open>bash\<close>-tagged fence that is never closed runs to the end of the text.
  When the text holds no \<open>bash\<close>-tagged fence, the result is the stripped text between the
  first generic fence and the next one, or the end of the text.  Here \<open>a\<close> is the text before
  the opening fence, \<open>body\<close> the text inside and \<open>rest\<close> the text after the closing fence;
  stripping removes at both ends every character of \<open>str.isspace\<close>, the next-line control
  and the no-break space among them.
\<close>

theorem extract_script_fences:
  "(\<exists>r. extract_script s = Inr r)
   \<and> (\<not> sublist fence s \<longrightarrow> extract_script s = Inr s)
   \<and> (\<not> sublist bash_fence (a @ butlast bash_fence)
        \<and> \<not> sublist fence (body @ butlast fence)
        \<and> (rest = [] \<or> hd rest \<noteq> CHR 0x60)
      \<longrightarrow> extract_script (a @ bash_fence @ body @ fence @ rest) = Inr (py_strip body))
   \<and> (\<not> sublist bash_fence (a @ butlast bash_fence) \<and> \<not> sublist fence body
      \<longrightarrow> extract_script (a @ bash_fence @ body) = Inr (py_strip body))
   \<and> (\<not> sublist bash_fence (a @ fence @ body @ fence @ rest)
        \<and> \<not> sublist fence (a @ butlast fence)
        \<and> \<not> sublist fence (body @ butlast fence)
      \<longrightarrow> extract_script (a @ fence @ body @ fence @ rest) = Inr (py_strip body))
   \<and> (\<not> sublist bash_fence (a @ fence @ body)
        \<and> \<not> sublist fence (a @ butlast fence) \<and> \<not> sublist fence body
      \<longrightarrow> extract_script (a @ fence @ body) = Inr (py_strip body))"
proof -
  have total: "\<exists>r. extract_script s = Inr r"
    using between_total [of bash_fence s] between_total [of fence s]
    by (simp add: extract_script_def)
  have raw: "extract_script s = Inr s" if "\<not> sublist fence s"
  proof -
    have "\<not> sublist bash_fence s"
      using that fence_in_bash_fence by (meson sublist_order.order.trans)
    then show ?thesis using that by (simp add: extract_script_def)
  qed
  have bash: "extract_script (a @ bash_fence @ body @ fence @ rest) = Inr (py_strip body)"
    if "\<not> sublist bash_fence (a @ butlast bash_fence)"
      "\<not> sublist fence (body @ butlast fence)" "rest = [] \<or> hd rest \<noteq> CHR 0x60"
    using between_bash_closed [OF that] by (simp add: extract_script_def)
  have bash_open: "extract_script (a @ bash_fence @ body) = Inr (py_strip body)"
    if "\<not> sublist bash_fence (a @ butlast bash_fence)" "\<not> sublist fence body"
    using between_unclosed [OF fence_nonempty(2) that fence_in_bash_fence]
    by (simp add: extract_script_def)
  have gen: "extract_script (a @ fence @ body @ fence @ rest) = Inr (py_strip body)"
    if "\<not> sublist bash_fence (a @ fence @ body @ fence @ rest)"
      "\<not> sublist fence (a @ butlast fence)" "\<not> sublist fence (body @ butlast fence)"
    using between_fence_closed [OF that(2,3)] that(1) by (simp add: extract_script_def)
  have gen_open: "extract_script (a @ fence @ body) = Inr (py_strip body)"
    if "\<not> sublist bash_fence (a @ fence @ body)"
      "\<not> sublist fence (a @ butlast fence)" "\<not> sublist fence body"
    using between_unclosed [OF fence_nonempty(1) that(2,3)] that(1)
    by (simp add: extract_script_def)
  show ?thesis using total raw bash bash_open gen gen_open by blast
qed

text \<open>
  The theorem at a response with a generic fence first and a \<open>bash\<close>-tagged fence after it,
  closed and unclosed, and at a response whose script is followed by a no-break space and a
  line feed inside the fence.
\<close>

theorem extract_script_fences_witness:
  "extract_script
     (''x'' @ fence @ ''sh y'' @ fence @ '' then '' @ bash_fence @ [CHR 0x0A] @ ''cp a b''
        @ [CHR 0x0A] @ fence @ '' done'') = Inr ''cp a b''
   \<and> extract_script
     (''x'' @ fence @ ''sh y'' @ fence @ '' then '' @ bash_fence @ [CHR 0x0A] @ ''cp a b'')
       = Inr ''cp a b''
   \<and> extract_script
     (bash_fence @ [CHR 0x0A] @ ''echo hi'' @ [CHR 0xA0, CHR 0x0A] @ fence) = Inr ''echo hi''"
proof -
  let ?a = "''x'' @ fence @ ''sh y'' @ fence @ '' then ''"
  let ?body = "[CHR 0x0A] @ ''cp a b'' @ [CHR 0x0A]"
  let ?body2 = "[CHR 0x0A] @ ''cp a b''"
  let ?body3 = "[CHR 0x0A] @ ''echo hi'' @ [CHR 0xA0, CHR 0x0A]"
  have h1: "\<not> sublist bash_fence (?a @ butlast bash_fence)" by code_simp
  have h2: "\<not> sublist fence (?body @ butlast fence)" by code_simp
  have h3: "'' done'' = [] \<or> hd '' done'' \<noteq> CHR 0x60" by simp
  have h4: "\<not> sublist fence ?body2" by code_simp
  have h5: "\<not> sublist bash_fence ([] @ butlast bash_fence)" by code_simp
  have h6: "\<not> sublist fence (?body3 @ butlast fence)" by code_simp
  have s1: "py_strip ?body = ''cp a b''" by code_simp
  have s2: "py_strip ?body2 = ''cp a b''" by code_simp
  have s3: "py_strip ?body3 = ''echo hi''" by code_simp
  have "extract_script (?a @ bash_fence @ ?body @ fence @ '' done'') = Inr (py_strip ?body)"
    using extract_script_fences [of "[]" ?a ?body "'' done''"] h1 h2 h3 by blast
  moreover have "extract_script (?a @ bash_fence @ ?body2) = Inr (py_strip ?body2)"
    using extract_script_fences [of "[]" ?a ?body2 "[]"] h1 h4 by blast
  moreover have "extract_script ([] @ bash_fence @ ?body3 @ fence @ []) = Inr (py_strip ?body3)"
    using extract_script_fences [of "[]" "[]" ?body3 "[]"] h5 h6 by blast
  ultimately show ?thesis using s1 s2 s3 by simp
qed

section \<open>The effect combinators, the validator and the start of main\<close>

lemma io_bind_emit [simp]:
  "io_bind (emit e) f st = f () (st\<lparr>trace := trace st @ [e]\<rparr>)"
  by (simp add: io_bind_def emit_def)

lemma io_bind_assoc [simp]:
  "io_bind (io_bind m f) g = io_bind m (\<lambda>x. io_bind (f x) g)"
  by (rule ext) (simp add: io_bind_def split: prod.splits sum.splits)

lemma io_bind_return [simp]: "io_bind (io_return x) f st = f x st"
  by (simp add: io_bind_def io_return_def)

lemma io_bind_return_fun: "io_bind (io_return x) f = f x"
  by (rule ext) simp

lemma io_bind_abort [simp]: "io_bind (io_abort a) f st = (Inl a, st)"
  by (simp add: io_bind_def io_abort_def)

lemma io_bind_raise [simp]: "io_bind (io_raise e) f st = (Inl (Raise e), st)"
  by (simp add: io_raise_def)

lemma io_raise_apply [simp]: "io_raise e st = (Inl (Raise e), st)"
  by (simp add: io_raise_def io_abort_def)

lemma io_return_apply [simp]: "io_return x st = (Inr x, st)"
  by (simp add: io_return_def)

lemma io_abort_apply [simp]: "io_abort a st = (Inl a, st)"
  by (simp add: io_abort_def)

lemma new_events_append [simp]:
  "new_events st (st\<lparr>trace := trace st @ es\<rparr>) = es"
  by (simp add: new_events_def)

text \<open>
  Claim C3 (validator reduction).  For every artifact path and every outcome of the child
  process, \<open>test_new_version\<close> returns a boolean and raises nothing: the result is \<open>True\<close>
  exactly when the child process ran to its end within the timeout with exit code 0, and
  \<open>False\<close> for a non-zero exit code, a timeout or any other raised exception.  Its only
  external call is the run of the artifact with the self-check flag.
\<close>

theorem test_new_version_reduces:
  "test_new_version aw agent_path st =
     (Inr (test_result aw = Inr 0), st\<lparr>trace := trace st @ [Run_test agent_path]\<rparr>)"
  by (cases "test_result aw") (simp_all add: test_new_version_def io_try_def)

text \<open>
  Claim C8 (self-check mode).  With \<open>--test\<close> among the arguments \<open>main\<close> prints \<open>OK\<close> and
  exits with code 0, whatever the three configuration values are: the check of the
  environment is not reached.  Without the flag, a missing (unset or empty) value among the
  three makes \<open>main\<close> print the remediation hint and exit with code 1; with all three present
  the start-up returns and the main loop begins.
\<close>

theorem main_startup_modes:
  "(''--test'' \<in> set argv \<longrightarrow>
      main_startup argv api_key github_token repo st =
        (Inl (Exit 0), st\<lparr>trace := trace st @ [Print ''OK'']\<rparr>))
   \<and> (''--test'' \<notin> set argv \<and> \<not> (truthy api_key \<and> truthy github_token \<and> truthy repo) \<longrightarrow>
      main_startup argv api_key github_token repo st =
        (Inl (Exit 1),
         st\<lparr>trace := trace st @
            [Print ''Error: Missing required environment variables'',
             Print ''Required: OPENAI_API_KEY, GITHUB_TOKEN, REPO'',
             Print (nl @ ''Create .env file with:''),
             Print ''  OPENAI_API_KEY=sk-...'',
             Print ''  GITHUB_TOKEN=ghp_...'',
             Print ''  REPO=username/repo-name'']\<rparr>))
   \<and> (''--test'' \<notin> set argv \<and> truthy api_key \<and> truthy github_token \<and> truthy repo \<longrightarrow>
      (\<exists>st'. main_startup argv api_key github_token repo st = (Inr (), st')))"
  by (simp add: main_startup_def)

text \<open>
  The theorem in self-check mode with no configuration at all, in normal mode with the
  task-queue credential missing, and in normal mode with the three values present.
\<close>

theorem main_startup_modes_witness:
  "main_startup [''agent_v1.py'', ''--test''] None None None \<lparr>trace = [], evolution_script = None\<rparr>
     = (Inl (Exit 0), \<lparr>trace = [Print ''OK''], evolution_script = None\<rparr>)
   \<and> fst (main_startup [''agent.py''] (Some ''sk-1'') None (Some ''o/r'')
            \<lparr>trace = [], evolution_script = None\<rparr>) = Inl (Exit 1)
   \<and> fst (main_startup [''agent.py''] (Some ''sk-1'') (Some ''ghp_1'') (Some ''o/r'')
            \<lparr>trace = [], evolution_script = None\<rparr>) = Inr ()"
proof -
  let ?st = "\<lparr>trace = [], evolution_script = None\<rparr>"
  have a: "''--test'' \<in> set [''agent_v1.py'', ''--test'']" by simp
  have b: "''--test'' \<notin> set [''agent.py'']" by simp
  have c: "\<not> (truthy (Some ''sk-1'') \<and> truthy None \<and> truthy (Some ''o/r''))"
    by (simp add: truthy_def)
  have d: "truthy (Some ''sk-1'') \<and> truthy (Some ''ghp_1'') \<and> truthy (Some ''o/r'')"
    by (simp add: truthy_def)
  from main_startup_modes [of "[''agent_v1.py'', ''--test'']" None None None ?st] a
  have 1: "main_startup [''agent_v1.py'', ''--test''] None None None ?st
     = (Inl (Exit 0), \<lparr>trace = [Print ''OK''], evolution_script = None\<rparr>)" by simp
  from main_startup_modes [of "[''agent.py'']" "Some ''sk-1''" None "Some ''o/r''" ?st] b c
  have 2: "fst (main_startup [''agent.py''] (Some ''sk-1'') None (Some ''o/r'') ?st) = Inl (Exit 1)"
    by simp
  from main_startup_modes [of "[''agent.py'']" "Some ''sk-1''" "Some ''ghp_1''" "Some ''o/r''" ?st] b d
  have 3: "fst (main_startup [''agent.py''] (Some ''sk-1'') (Some ''ghp_1'') (Some ''o/r'') ?st) = Inr ()"
    by auto
  show ?thesis using 1 2 3 by simp
qed

section \<open>The functions of one attempt\<close>

lemma io_try_return [simp]: "io_try (io_return x) h st = (Inr x, st)"
  by (simp add: io_try_def)

lemma github_api_apply [simp]:
  "github_api answer method path j st =
     ((case answer of None \<Rightarrow> Inr () | Some e \<Rightarrow> Inl (Raise e)),
      st\<lparr>trace := trace st @ [Github_api method path j]\<rparr>)"
  by (cases answer) (simp_all add: github_api_def)

lemma run_git_apply [simp]:
  "run_git answer args st =
     ((case answer of None \<Rightarrow> Inr () | Some e \<Rightarrow> Inl (Raise e)),
      st\<lparr>trace := trace st @ [Git args]\<rparr>)"
  by (cases answer) (simp_all add: run_git_def)

lemma io_bind_apply:
  "io_bind m f st = (case m st of (Inl a, st') \<Rightarrow> (Inl a, st') | (Inr x, st') \<Rightarrow> f x st')"
  by (simp add: io_bind_def)

lemma extract_script_total: "\<exists>script. extract_script content = Inr script"
  using between_total [of bash_fence content] between_total [of fence content]
  by (simp add: extract_script_def)

lemma script_of_Inr:
  "chat_response aw = Inr content \<Longrightarrow> extract_script content = Inr (script_of aw)"
  using extract_script_total [of content] by (auto simp: script_of_def)

lemma generate_ok:
  "chat_response aw = Inr content \<Longrightarrow>
   generate_evolution_script aw task prev st =
     (Inr (script_of aw), st\<lparr>trace := trace st @ [Chat_completion task prev]\<rparr>)"
  using script_of_Inr [of aw content] by (simp add: generate_evolution_script_def)

lemma generate_raises:
  "chat_response aw = Inl e \<Longrightarrow>
   generate_evolution_script aw task prev st =
     (Inl (Raise e), st\<lparr>trace := trace st @ [Chat_completion task prev]\<rparr>)"
  by (simp add: generate_evolution_script_def)

lemma create_new_version_apply:
  "create_new_version cf aw script version st =
     ((case bash_result aw of
         Inl e \<Rightarrow> Inl (Raise e)
       | Inr (returncode, stderr) \<Rightarrow>
           if returncode \<noteq> 0 then Inl (Raise (PyException (''Evolution script failed: '' @ stderr)))
           else Inr (''agent_v'' @ str_int version @ ''.py'')),
      st\<lparr>trace := trace st @ build_events cf script version\<rparr>)"
  by (cases "bash_result aw")
    (auto simp: create_new_version_def build_events_def Let_def split: prod.splits)

lemma attempt_validation_fails:
  assumes "chat_response aw = Inr content" "bash_result aw = Inr (0, err)"
    and "test_result aw \<noteq> Inr 0" "n \<noteq> max_retries"
  shows "attempt cf aw i task version n prev st =
     (Inr (Next_attempt
        (Some (script_of aw, ''New version failed --test flag (exit code non-zero)''))),
      st\<lparr>trace := trace st @ gbv_events cf aw task version prev,
         evolution_script := Some (script_of aw)\<rparr>)"
  using assms
  by (simp add: attempt_def attempt_body_def io_try_def io_bind_apply generate_ok
      create_new_version_apply test_new_version_reduces set_evolution_script_def
      gbv_events_def)

section \<open>The external calls a computation can make\<close>

lemma emitsI:
  "(\<And>st. \<exists>es. trace (snd (m st)) = trace st @ es \<and> list_all P es) \<Longrightarrow> emits P m"
  by (simp add: emits_def)

lemma emitsD:
  "emits P m \<Longrightarrow> \<exists>es. trace (snd (m st)) = trace st @ es \<and> list_all P es"
  by (simp add: emits_def)

lemma emits_mono: "emits P m \<Longrightarrow> (\<And>e. P e \<Longrightarrow> Q e) \<Longrightarrow> emits Q m"
  unfolding emits_def by (metis (mono_tags, lifting) list_all_iff)

lemma emits_return [simp]: "emits P (io_return x)"
  by (simp add: emits_def)

lemma emits_Pair [simp]: "emits P (Pair r)"
  by (simp add: emits_def)

lemma emits_abort [simp]: "emits P (io_abort a)"
  by (simp add: emits_def)

lemma emits_raise [simp]: "emits P (io_raise e)"
  by (simp add: emits_def)

lemma emits_emit: "P e \<Longrightarrow> emits P (emit e)"
  by (simp add: emits_def emit_def)

lemma emits_set_evolution_script [simp]: "emits P (set_evolution_script s)"
  by (simp add: emits_def set_evolution_script_def)

lemma emits_get_evolution_script [simp]: "emits P get_evolution_script"
  by (simp add: emits_def get_evolution_script_def)

lemma emits_bind:
  assumes "emits P m" "\<And>x. emits P (f x)"
  shows "emits P (io_bind m f)"
proof (rule emitsI)
  fix st
  obtain r st1 where m: "m st = (r, st1)" by (cases "m st")
  from emitsD [OF assms(1), of st] m obtain es1 where
    es1: "trace st1 = trace st @ es1" "list_all P es1" by auto
  show "\<exists>es. trace (snd (io_bind m f st)) = trace st @ es \<and> list_all P es"
  proof (cases r)
    case (Inl a)
    then show ?thesis using m es1 by (auto simp: io_bind_def)
  next
    case (Inr x)
    from emitsD [OF assms(2), of x st1] obtain es2 where
      "trace (snd (f x st1)) = trace st1 @ es2" "list_all P es2" by auto
    then show ?thesis using m Inr es1
      by (intro exI [of _ "es1 @ es2"]) (simp add: io_bind_def)
  qed
qed

lemma emits_try:
  assumes "emits P m" "\<And>e. emits P (h e)"
  shows "emits P (io_try m h)"
proof (rule emitsI)
  fix st
  obtain r st1 where m: "m st = (r, st1)" by (cases "m st")
  from emitsD [OF assms(1), of st] m obtain es1 where
    es1: "trace st1 = trace st @ es1" "list_all P es1" by auto
  show "\<exists>es. trace (snd (io_try m h st)) = trace st @ es \<and> list_all P es"
  proof (cases "\<exists>e. r = Inl (Raise e)")
    case True
    then obtain e where e: "r = Inl (Raise e)" by blast
    from emitsD [OF assms(2), of e st1] obtain es2 where
      "trace (snd (h e st1)) = trace st1 @ es2" "list_all P es2" by auto
    then show ?thesis using m e es1
      by (intro exI [of _ "es1 @ es2"]) (simp add: io_try_def)
  next
    case False
    then have "io_try m h st = (r, st1)"
      using m by (auto simp: io_try_def split: sum.splits abort.splits)
    then show ?thesis using es1 by auto
  qed
qed

lemma emits_github_api: "P (Github_api method path j) \<Longrightarrow> emits P (github_api answer method path j)"
  unfolding github_api_def
  by (intro emits_bind emits_emit) (simp_all split: option.splits)

lemma emits_run_git: "P (Git args) \<Longrightarrow> emits P (run_git answer args)"
  unfolding run_git_def
  by (intro emits_bind emits_emit) (simp_all split: option.splits)

lemma emits_generate:
  "P (Chat_completion task prev) \<Longrightarrow> emits P (generate_evolution_script aw task prev)"
  unfolding generate_evolution_script_def
  by (intro emits_bind emits_emit) (simp_all split: sum.splits py_error.splits)

lemma emits_create_new_version:
  "list_all P (build_events cf script version) \<Longrightarrow>
   emits P (create_new_version cf aw script version)"
  unfolding create_new_version_def Let_def build_events_def
  by (intro emits_bind emits_emit) (simp_all split: sum.splits prod.splits)

lemma emits_test_new_version:
  "P (Run_test path) \<Longrightarrow> emits P (test_new_version aw path)"
  unfolding test_new_version_def
  by (intro emits_try emits_bind emits_emit) (simp_all split: sum.splits)

lemma emits_os_execv: "P (Execv path) \<Longrightarrow> emits P (os_execv aw path)"
  unfolding os_execv_def
  by (intro emits_bind emits_emit) (simp_all split: option.splits)

lemma emits_create_pull_request:
  "(\<And>args. P (Git args)) \<Longrightarrow> (\<And>j. P (Github_api ''POST'' ''/pulls'' j)) \<Longrightarrow>
   emits P (create_pull_request aw version task branch)"
  unfolding create_pull_request_def
  by (intro emits_bind emits_run_git emits_github_api) simp_all

lemma emits_bind_create_new_version:
  assumes "list_all P (build_events cf script version)"
    and "emits P (f (''agent_v'' @ str_int version @ ''.py''))"
  shows "emits P (io_bind (create_new_version cf aw script version) f)"
proof (rule emitsI)
  fix st :: state
  let ?st1 = "st\<lparr>trace := trace st @ build_events cf script version\<rparr>"
  show "\<exists>es. trace (snd (io_bind (create_new_version cf aw script version) f st)) = trace st @ es
          \<and> list_all P es"
  proof (cases "fst (create_new_version cf aw script version st)")
    case (Inl a)
    then have "io_bind (create_new_version cf aw script version) f st = (Inl a, ?st1)"
      by (auto simp: io_bind_apply create_new_version_apply split: sum.splits prod.splits if_splits)
    then show ?thesis using assms(1) by auto
  next
    case (Inr x)
    then have "io_bind (create_new_version cf aw script version) f st
        = f (''agent_v'' @ str_int version @ ''.py'') ?st1"
      by (auto simp: io_bind_apply create_new_version_apply split: sum.splits prod.splits if_splits)
    moreover from emitsD [OF assms(2), of ?st1] obtain es2 where
      "trace (snd (f (''agent_v'' @ str_int version @ ''.py'') ?st1)) = trace ?st1 @ es2"
      "list_all P es2" by auto
    ultimately show ?thesis using assms(1)
      by (intro exI [of _ "build_events cf script version @ es2"]) simp
  qed
qed

lemma emits_attempt_handler:
  "emits (attempt_event i v) (attempt_handler aw i n e)"
  unfolding attempt_handler_def
  by (intro emits_bind emits_get_evolution_script)
    (auto intro!: emits_bind emits_github_api)

lemma emits_attempt_body:
  "emits (attempt_event i v) (attempt_body cf aw i task v n prev)"
  unfolding attempt_body_def
  apply (rule emits_bind)
   apply (rule emits_generate)
   apply simp
  apply (rule emits_bind)
   apply (rule emits_set_evolution_script)
  apply (rule emits_bind_create_new_version)
   apply (simp add: build_events_def)
  apply (rule emits_bind)
   apply (rule emits_test_new_version)
   apply simp
  apply (auto intro!: emits_bind emits_create_pull_request emits_github_api emits_os_execv)
  done

lemma emits_attempt:
  "emits (attempt_event i v) (attempt cf aw i task v n prev)"
  unfolding attempt_def by (intro emits_try emits_attempt_body emits_attempt_handler)

lemma emits_attempt_loop:
  "emits (attempt_event i v) (attempt_loop cf aws i task v ns prev)"
proof (induction ns arbitrary: prev)
  case Nil
  then show ?case by simp
next
  case (Cons n ns)
  show ?case
    by (simp, intro emits_bind emits_attempt) (simp add: Cons split: loop_control.splits)
qed

section \<open>Properties of a scan and of the label filter\<close>

lemma attempt_event_uses_version:
  "attempt_event i v e \<Longrightarrow> e \<noteq> List_dir \<and> uses_version v e"
  by (cases e) simp_all

lemma emits_process_issue:
  "emits (\<lambda>e. e \<noteq> List_dir \<and> uses_version v e) (process_issue cf iw v i)"
  unfolding process_issue_def
  by (auto intro!: emits_bind emits_github_api
      emits_mono [OF emits_attempt_loop attempt_event_uses_version])

lemma emits_for_issues:
  "emits (\<lambda>e. e \<noteq> List_dir \<and> uses_version v e) (for_issues cf iws v k issues)"
  by (induction issues arbitrary: k) (auto intro!: emits_bind emits_process_issue)

lemma io_try_bind_emit:
  "io_try (io_bind (emit e) f) h st = io_try (f ()) h (st\<lparr>trace := trace st @ [e]\<rparr>)"
  by (simp add: io_try_def)

text \<open>
  Claim C10 (one version per scan).  In every scan the first external call is the directory
  listing from which \<open>get_next_version\<close> computes the version, no later call of the scan lists
  the directory again, and every later call that names a file names the files of that one
  version: each write, chmod and run of an evolution script is on \<open>evolve_v<N>.sh\<close>, each
  self-check and each process replacement is on \<open>agent_v<N>.py\<close>, for every attempt of every
  task of the scan.
\<close>

theorem scan_single_version:
  "\<exists>es. new_events st (snd (scan w st)) = List_dir # es
        \<and> list_all (\<lambda>e. e \<noteq> List_dir) es
        \<and> list_all (uses_version (get_next_version (dir_listing w))) es"
proof -
  let ?v = "get_next_version (dir_listing w)"
  let ?P = "\<lambda>e. e \<noteq> List_dir \<and> uses_version ?v e"
  let ?body = "io_bind (emit (Github_api ''GET'' ''/issues?labels=agent-task&state=open'' No_json))
        (\<lambda>_. case issues_response w of
                Inl e \<Rightarrow> io_raise e
              | Inr issues \<Rightarrow>
                  io_bind (for_issues (running_filename w) (issue_worlds w) ?v 0 issues)
                    (\<lambda>_. emit (Sleep 30)))"
  let ?h = "\<lambda>error.
          io_bind (emit (Print (cross_mark @ '' Error in main loop: '' @ str_of_exception error)))
            (\<lambda>_. emit (Sleep 60))"
  let ?st1 = "st\<lparr>trace := trace st @ [List_dir]\<rparr>"
  have scan: "scan w st = io_try ?body ?h ?st1"
    unfolding scan_def io_bind_return_fun by (rule io_try_bind_emit)
  have "emits ?P ?body"
    by (auto intro!: emits_bind emits_emit emits_for_issues split: sum.splits)
  moreover have "emits ?P (?h e)" for e
    by (auto intro!: emits_bind emits_emit)
  ultimately have "emits ?P (io_try ?body ?h)" by (intro emits_try)
  from emitsD [OF this, of ?st1] obtain es where
    es: "trace (snd (io_try ?body ?h ?st1)) = trace ?st1 @ es" "list_all ?P es" by blast
  have "new_events st (snd (scan w st)) = List_dir # es"
    using es(1) scan by (simp add: new_events_def)
  moreover have "list_all (\<lambda>e. e \<noteq> List_dir) es" "list_all (uses_version ?v) es"
    using es(2) by (simp_all add: list_all_iff)
  ultimately show ?thesis by blast
qed







text \<open>
  The theorem at a scan of a directory holding versions 1 and 2: every call of the scan is on
  version 3.
\<close>

theorem scan_single_version_witness:
  "\<exists>es. new_events initial_state (snd (scan failing_scan_world initial_state)) = List_dir # es
        \<and> list_all (\<lambda>e. e \<noteq> List_dir) es \<and> list_all (uses_version 3) es"
proof -
  have v: "get_next_version (dir_listing failing_scan_world) = 3"
    unfolding failing_scan_world_def by code_simp
  from scan_single_version [of initial_state failing_scan_world]
  show ?thesis unfolding v .
qed

section \<open>Properties of the placeholder substitution\<close>





section \<open>The retry controller\<close>

lemma phases_Nil [simp]: "phases [] = []"
  by (simp add: phases_def List.map_filter_simps)

lemma phases_Cons [simp]:
  "phases (e # es) = (case phase_of e of None \<Rightarrow> phases es | Some p \<Rightarrow> p # phases es)"
  by (simp add: phases_def List.map_filter_simps split: option.splits)

lemma phases_append [simp]: "phases (es @ es') = phases es @ phases es'"
  by (induction es) (simp_all split: option.splits)

lemma phases_build_events [simp]: "phases (build_events cf script v) = [Building]"
  by (simp add: build_events_def)

lemma phases_gbv_events [simp]:
  "phases (gbv_events cf aw task v prev) = [Generating, Building, Validating]"
  by (simp add: gbv_events_def)

lemma attempt_handler_mid:
  "n \<noteq> max_retries \<Longrightarrow>
   attempt_handler aw i n e st =
     (Inr (Next_attempt
        (Some (case evolution_script st of Some s \<Rightarrow> s | None \<Rightarrow> ''N/A'', str_of_exception e))),
      st)"
  by (simp add: attempt_handler_def get_evolution_script_def io_bind_apply)

lemma give_up_heading_prefix [simp]:
  "prefix give_up_heading (error_comment e)" "prefix give_up_heading tests_failed_comment"
  by (simp_all add: error_comment_def tests_failed_comment_def)

lemma attempt_handler_last:
  "n = max_retries \<Longrightarrow> attempt_handler aw i n e st =
     ((case first_error (map fst (give_up_error_calls aw i e)) of
         None \<Rightarrow> Inr Break | Some e' \<Rightarrow> Inl (Raise e')),
      st\<lparr>trace := trace st @ calls_made (give_up_error_calls aw i e)\<rparr>)"
  by (cases "api_error aw Error_comment_site"; cases "api_error aw Error_label_site")
    (simp_all add: attempt_handler_def get_evolution_script_def io_bind_apply
      give_up_error_calls_def failed_label_request_def)

lemma io_bind_run_steps_Nil: "io_bind (run_steps []) f = f ()"
  by (rule ext) simp

lemma io_bind_run_steps_Cons:
  "io_bind (run_steps ((a, call) # rest)) f =
     io_bind (emit call) (\<lambda>_. case a of None \<Rightarrow> io_bind (run_steps rest) f | Some e \<Rightarrow> io_raise e)"
  by (rule ext) (cases a; simp)

lemma io_bind_run_git:
  "io_bind (run_git a args) f =
     io_bind (emit (Git args)) (\<lambda>_. case a of None \<Rightarrow> f () | Some e \<Rightarrow> io_raise e)"
  by (rule ext) (cases a; simp add: io_bind_def emit_def)

lemma io_bind_github_api:
  "io_bind (github_api a method path j) f =
     io_bind (emit (Github_api method path j)) (\<lambda>_. case a of None \<Rightarrow> f () | Some e \<Rightarrow> io_raise e)"
  by (rule ext) (cases a; simp add: io_bind_def emit_def)

lemma publish_as_steps:
  "io_bind (create_pull_request aw v task (''evolution-v'' @ str_int v))
     (\<lambda>_. io_bind (github_api (api_error aw Success_comment_site) ''POST''
                     (issue_path i ''/comments'') (Json_body (success_comment v n)))
     (\<lambda>_. io_bind (github_api (api_error aw Close_site) ''PATCH''
                     (issue_path i []) (Json_state ''closed''))
     (\<lambda>_. f)))
   = io_bind (run_steps (publish_calls aw i task v n)) (\<lambda>_. f)"
  apply (simp only: create_pull_request_def publish_calls_def success_report_def io_bind_assoc)
  apply (simp only: io_bind_run_git io_bind_github_api io_bind_run_steps_Cons io_bind_run_steps_Nil)
  done

lemma publish_steps_calls: "map fst (publish_calls aw i task v n) = publish_steps aw"
  by (simp add: publish_calls_def publish_steps_def)

lemma run_steps_apply:
  "run_steps steps st =
     ((case first_error (map fst steps) of None \<Rightarrow> Inr () | Some e \<Rightarrow> Inl (Raise e)),
      st\<lparr>trace := trace st @ calls_made steps\<rparr>)"
proof (induction steps arbitrary: st)
  case Nil
  then show ?case by simp
next
  case (Cons s steps)
  obtain a call where s: "s = (a, call)" by (cases s)
  show ?case by (cases a) (simp_all add: s Cons.IH)
qed

lemma calls_made_subset: "set (calls_made steps) \<subseteq> set (map snd steps)"
proof (induction steps)
  case Nil
  then show ?case by simp
next
  case (Cons s steps)
  obtain a call where s: "s = (a, call)" by (cases s)
  show ?case using Cons by (cases a) (auto simp: s)
qed

lemma phase_of_publish_call:
  "c \<in> set (map snd (publish_calls aw i task v n)) \<Longrightarrow>
   phase_of c = None \<and> (\<forall>p. c \<noteq> Execv p) \<and> attempt_event i v c"
  by (auto simp: publish_calls_def success_report_def)

lemma phases_none: "(\<And>c. c \<in> set es \<Longrightarrow> phase_of c = None) \<Longrightarrow> phases es = []"
  by (induction es) simp_all

lemma gbv_succeedsD:
  assumes "gbv_succeeds aw"
  obtains content err where "chat_response aw = Inr content" "bash_result aw = Inr (0, err)"
    "test_result aw = Inr 0"
  using assms by (auto simp: gbv_succeeds_def split: sum.splits prod.splits)

lemma os_execv_apply:
  "os_execv aw p st =
     ((case execv_error aw of None \<Rightarrow> Inl (Replaced p) | Some e \<Rightarrow> Inl (Raise e)),
      st\<lparr>trace := trace st @ [Execv p]\<rparr>)"
  by (cases "execv_error aw") (simp_all add: os_execv_def)

lemma attempt_generation_raises:
  "chat_response aw = Inl e \<Longrightarrow>
   attempt cf aw i task v n prev st =
     attempt_handler aw i n e (st\<lparr>trace := trace st @ [Chat_completion task prev]\<rparr>)"
  by (simp add: attempt_def attempt_body_def io_try_def io_bind_apply generate_raises)

lemma attempt_build_raises:
  "chat_response aw = Inr content \<Longrightarrow> bash_result aw = Inl e \<Longrightarrow>
   attempt cf aw i task v n prev st =
     attempt_handler aw i n e
       (st\<lparr>evolution_script := Some (script_of aw),
          trace := trace st @ Chat_completion task prev # build_events cf (script_of aw) v\<rparr>)"
  by (simp add: attempt_def attempt_body_def io_try_def io_bind_apply generate_ok
      create_new_version_apply set_evolution_script_def)

lemma attempt_build_fails:
  "chat_response aw = Inr content \<Longrightarrow> bash_result aw = Inr (rc, err) \<Longrightarrow> rc \<noteq> 0 \<Longrightarrow>
   attempt cf aw i task v n prev st =
     attempt_handler aw i n (PyException (''Evolution script failed: '' @ err))
       (st\<lparr>evolution_script := Some (script_of aw),
          trace := trace st @ Chat_completion task prev # build_events cf (script_of aw) v\<rparr>)"
  by (simp add: attempt_def attempt_body_def io_try_def io_bind_apply generate_ok
      create_new_version_apply set_evolution_script_def)

lemma give_up_tests_as_steps:
  "io_bind (github_api (api_error aw Tests_comment_site) ''POST''
              (issue_path i ''/comments'') (Json_body tests_failed_comment))
     (\<lambda>_. io_bind (github_api (api_error aw Tests_label_site) ''POST''
                     (issue_path i ''/labels'') (Json_labels [''agent-failed'']))
     (\<lambda>_. f))
   = io_bind (run_steps (give_up_tests_calls aw i)) (\<lambda>_. f)"
  by (simp only: give_up_tests_calls_def failed_label_request_def io_bind_github_api
      io_bind_run_steps_Cons io_bind_run_steps_Nil)

lemma attempt_validation_fails_last:
  assumes "chat_response aw = Inr content" "bash_result aw = Inr (0, err)"
    and "test_result aw \<noteq> Inr 0" "n = max_retries"
  shows "attempt cf aw i task v n prev st =
     (case first_error (map fst (give_up_tests_calls aw i)) of
        None \<Rightarrow> Pair (Inr Break)
      | Some e \<Rightarrow> attempt_handler aw i n e)
       (st\<lparr>evolution_script := Some (script_of aw),
          trace := trace st @ gbv_events cf aw task v prev
                   @ calls_made (give_up_tests_calls aw i)\<rparr>)"
  using assms
  unfolding attempt_def attempt_body_def give_up_tests_as_steps
  by (simp add: io_try_def io_bind_apply generate_ok create_new_version_apply
      test_new_version_reduces set_evolution_script_def gbv_events_def run_steps_apply
      split: option.splits)

lemma attempt_validated:
  assumes "gbv_succeeds aw"
  shows "attempt cf aw i task v n prev st =
     (case publish_error aw of
        Some e \<Rightarrow>
          attempt_handler aw i n e
            (st\<lparr>evolution_script := Some (script_of aw),
               trace := trace st @ gbv_events cf aw task v prev
                        @ calls_made (publish_calls aw i task v n)\<rparr>)
      | None \<Rightarrow>
          (case execv_error aw of
             None \<Rightarrow> Pair (Inl (Replaced (''agent_v'' @ str_int v @ ''.py'')))
           | Some e \<Rightarrow> attempt_handler aw i n e)
            (st\<lparr>evolution_script := Some (script_of aw),
               trace := trace st @ gbv_events cf aw task v prev
                        @ calls_made (publish_calls aw i task v n)
                        @ [Execv (''agent_v'' @ str_int v @ ''.py'')]\<rparr>))"
proof -
  from assms obtain content err where
    "chat_response aw = Inr content" "bash_result aw = Inr (0, err)" "test_result aw = Inr 0"
    by (rule gbv_succeedsD)
  then show ?thesis
    unfolding attempt_def attempt_body_def publish_as_steps
    by (simp add: io_try_def io_bind_apply generate_ok create_new_version_apply
        test_new_version_reduces set_evolution_script_def gbv_events_def run_steps_apply
        os_execv_apply publish_steps_calls publish_error_def split: option.splits)
qed

lemma calls_made_all:
  "first_error (map fst steps) = None \<Longrightarrow> calls_made steps = map snd steps"
proof (induction steps)
  case Nil
  then show ?case by simp
next
  case (Cons s steps)
  obtain a call where s: "s = (a, call)" by (cases s)
  show ?case using Cons by (cases a) (simp_all add: s)
qed

lemma phases_calls_made_publish [simp]: "phases (calls_made (publish_calls aw i task v n)) = []"
  using calls_made_subset [of "publish_calls aw i task v n"] phase_of_publish_call [of _ aw i task v n]
  by (intro phases_none) blast

lemma phases_publish_calls [simp]: "phases (map snd (publish_calls aw i task v n)) = []"
  using phase_of_publish_call [of _ aw i task v n] by (intro phases_none) blast

lemma phases_give_up_error [simp]: "phases (calls_made (give_up_error_calls aw i e)) = []"
  by (cases "api_error aw Error_comment_site"; cases "api_error aw Error_label_site")
    (simp_all add: give_up_error_calls_def failed_label_request_def)

lemma phases_give_up_tests [simp]: "phases (calls_made (give_up_tests_calls aw i)) = []"
  by (cases "api_error aw Tests_comment_site"; cases "api_error aw Tests_label_site")
    (simp_all add: give_up_tests_calls_def failed_label_request_def)

lemma give_up_error_comment_made [simp]:
  "list_ex (is_give_up_comment i) (calls_made (give_up_error_calls aw i e))"
  by (cases "api_error aw Error_comment_site"; cases "api_error aw Error_label_site")
    (simp_all add: give_up_error_calls_def)

lemma give_up_tests_comment_made [simp]:
  "list_ex (is_give_up_comment i) (calls_made (give_up_tests_calls aw i))"
  by (cases "api_error aw Tests_comment_site"; cases "api_error aw Tests_label_site")
    (simp_all add: give_up_tests_calls_def)

lemma phases_of_attempt_success:
  "gbv_succeeds aw \<Longrightarrow> phases_of_attempt aw = [Generating, Building, Validating]"
  by (auto simp: gbv_succeeds_def phases_of_attempt_def split: sum.splits prod.splits)

text \<open>A failed attempt before the last one.\<close>

lemma attempt_fails_mid:
  assumes "\<not> attempt_ok aw" "n \<noteq> max_retries"
  shows "\<exists>p st' es. attempt cf aw i task v n prev st = (Inr (Next_attempt p), st')
           \<and> trace st' = trace st @ es \<and> phases es = phases_of_attempt aw
           \<and> list_all (attempt_event i v) es"
proof -
  from emitsD [OF emits_attempt [of i v cf aw task n prev], of st] obtain es where
    es: "trace (snd (attempt cf aw i task v n prev st)) = trace st @ es"
      "list_all (attempt_event i v) es" by blast
  show ?thesis
  proof (cases "gbv_succeeds aw")
    case True
    then have "publish_error aw \<noteq> None \<or> execv_error aw \<noteq> None"
      using assms(1) by (simp add: attempt_ok_def)
    then show ?thesis using assms(2) es True
      by (auto simp: attempt_validated attempt_handler_mid phases_of_attempt_success
          split: option.splits)
  next
    case False
    show ?thesis
    proof (cases "chat_response aw")
      case (Inl e)
      then show ?thesis using assms(2) es
        by (auto simp: attempt_generation_raises attempt_handler_mid phases_of_attempt_def)
    next
      case chat: (Inr content)
      show ?thesis
      proof (cases "bash_result aw")
        case (Inl e)
        then show ?thesis using assms(2) chat es
          by (auto simp: attempt_build_raises attempt_handler_mid phases_of_attempt_def)
      next
        case (Inr b)
        obtain rc err where b: "b = (rc, err)" by (cases b)
        show ?thesis
        proof (cases "rc = 0")
          case True
          then have "test_result aw \<noteq> Inr 0"
            using False chat Inr b by (simp add: gbv_succeeds_def)
          then show ?thesis using assms(2) chat Inr b True es
            by (auto simp: attempt_validation_fails phases_of_attempt_def)
        next
          case False
          then show ?thesis using assms(2) chat Inr b es
            by (auto simp: attempt_build_fails attempt_handler_mid phases_of_attempt_def)
        qed
      qed
    qed
  qed
qed

text \<open>A failed attempt at the last attempt number.\<close>

lemma failed_label_made:
  "api_error aw Error_comment_site = None \<Longrightarrow>
   failed_label_request i \<in> set (calls_made (give_up_error_calls aw i e))"
  "api_error aw Tests_comment_site = None \<Longrightarrow>
   failed_label_request i \<in> set (calls_made (give_up_tests_calls aw i))"
  by (cases "api_error aw Error_label_site"; cases "api_error aw Tests_label_site";
      simp add: give_up_error_calls_def give_up_tests_calls_def)+

lemma handler_last_shape:
  assumes "n = max_retries"
  shows "\<exists>r es. attempt_handler aw i n e st = (r, st\<lparr>trace := trace st @ es\<rparr>)
           \<and> (r = Inr Break \<or> (\<exists>e'. r = Inl (Raise e')))
           \<and> phases es = [] \<and> list_ex (is_give_up_comment i) es
           \<and> (give_up_returns aw \<longrightarrow> r = Inr Break \<and> failed_label_request i \<in> set es)"
proof -
  let ?r = "case first_error (map fst (give_up_error_calls aw i e)) of
              None \<Rightarrow> Inr Break | Some e' \<Rightarrow> Inl (Raise e')"
  let ?es = "calls_made (give_up_error_calls aw i e)"
  have "attempt_handler aw i n e st = (?r, st\<lparr>trace := trace st @ ?es\<rparr>)"
    by (rule attempt_handler_last [OF assms])
  moreover have "?r = Inr Break \<or> (\<exists>e'. ?r = Inl (Raise e'))"
    by (cases "first_error (map fst (give_up_error_calls aw i e))") simp_all
  moreover have "give_up_returns aw \<longrightarrow> ?r = Inr Break \<and> failed_label_request i \<in> set ?es"
    by (auto simp: give_up_returns_def failed_label_made(1)) (simp add: give_up_error_calls_def)
  ultimately show ?thesis
    by (intro exI [of _ ?r] exI [of _ ?es]) simp
qed

lemma via_handler_last:
  assumes "n = max_retries"
    and "attempt cf aw i task v n prev st = attempt_handler aw i n e stx"
    and "trace stx = trace st @ pre" "phases pre = phases_of_attempt aw"
  shows "\<exists>r st' es. attempt cf aw i task v n prev st = (r, st')
           \<and> (r = Inr Break \<or> (\<exists>e. r = Inl (Raise e)))
           \<and> trace st' = trace st @ es \<and> phases es = phases_of_attempt aw
           \<and> list_ex (is_give_up_comment i) es
           \<and> (give_up_returns aw \<longrightarrow> r = Inr Break \<and> failed_label_request i \<in> set es)"
proof -
  from handler_last_shape [OF assms(1), of aw i e stx] obtain r es where
    h: "attempt_handler aw i n e stx = (r, stx\<lparr>trace := trace stx @ es\<rparr>)"
      "r = Inr Break \<or> (\<exists>e'. r = Inl (Raise e'))" "phases es = []"
      "list_ex (is_give_up_comment i) es"
      "give_up_returns aw \<longrightarrow> r = Inr Break \<and> failed_label_request i \<in> set es" by blast
  show ?thesis
    using h assms(2,3,4)
    by (intro exI [of _ r] exI [of _ "stx\<lparr>trace := trace stx @ es\<rparr>"] exI [of _ "pre @ es"])
      auto
qed

lemma attempt_fails_last:
  assumes "\<not> attempt_ok aw" "n = max_retries"
  shows "\<exists>r st' es. attempt cf aw i task v n prev st = (r, st')
           \<and> (r = Inr Break \<or> (\<exists>e. r = Inl (Raise e)))
           \<and> trace st' = trace st @ es \<and> phases es = phases_of_attempt aw
           \<and> list_ex (is_give_up_comment i) es
           \<and> (give_up_returns aw \<longrightarrow> r = Inr Break \<and> failed_label_request i \<in> set es)"
proof (cases "gbv_succeeds aw")
  case True
  note p = phases_of_attempt_success [OF True]
  show ?thesis
  proof (cases "publish_error aw")
    case (Some e)
    show ?thesis
      by (rule via_handler_last [OF assms(2), where e = e
            and pre = "gbv_events cf aw task v prev @ calls_made (publish_calls aw i task v n)"
            and stx = "st\<lparr>evolution_script := Some (script_of aw),
               trace := trace st @ gbv_events cf aw task v prev
                        @ calls_made (publish_calls aw i task v n)\<rparr>"])
        (simp_all add: attempt_validated [OF True] Some p)
  next
    case None
    then obtain e where e: "execv_error aw = Some e"
      using assms(1) True by (auto simp: attempt_ok_def)
    show ?thesis
      by (rule via_handler_last [OF assms(2), where e = e
            and pre = "gbv_events cf aw task v prev @ calls_made (publish_calls aw i task v n)
                        @ [Execv (''agent_v'' @ str_int v @ ''.py'')]"
            and stx = "st\<lparr>evolution_script := Some (script_of aw),
               trace := trace st @ gbv_events cf aw task v prev
                        @ calls_made (publish_calls aw i task v n)
                        @ [Execv (''agent_v'' @ str_int v @ ''.py'')]\<rparr>"])
        (simp_all add: attempt_validated [OF True] None e p)
  qed
next
  case False
  show ?thesis
  proof (cases "chat_response aw")
    case (Inl e)
    show ?thesis
      by (rule via_handler_last [OF assms(2), where e = e
            and pre = "[Chat_completion task prev]"
            and stx = "st\<lparr>trace := trace st @ [Chat_completion task prev]\<rparr>"])
        (simp_all add: attempt_generation_raises [OF Inl] Inl phases_of_attempt_def)
  next
    case chat: (Inr content)
    show ?thesis
    proof (cases "bash_result aw")
      case (Inl e)
      show ?thesis
        by (rule via_handler_last [OF assms(2), where e = e
              and pre = "Chat_completion task prev # build_events cf (script_of aw) v"
              and stx = "st\<lparr>evolution_script := Some (script_of aw),
                 trace := trace st @ Chat_completion task prev # build_events cf (script_of aw) v\<rparr>"])
          (simp_all add: attempt_build_raises [OF chat Inl] chat Inl phases_of_attempt_def)
    next
      case (Inr b)
      obtain rc err where b: "b = (rc, err)" by (cases b)
      show ?thesis
      proof (cases "rc = 0")
        case rc: False
        have bash: "bash_result aw = Inr (rc, err)" using Inr b by simp
        show ?thesis
          by (rule via_handler_last [OF assms(2),
                where e = "PyException (''Evolution script failed: '' @ err)"
                and pre = "Chat_completion task prev # build_events cf (script_of aw) v"
                and stx = "st\<lparr>evolution_script := Some (script_of aw),
                   trace := trace st @ Chat_completion task prev # build_events cf (script_of aw) v\<rparr>"])
            (simp_all add: attempt_build_fails [OF chat bash rc] chat bash rc phases_of_attempt_def)
      next
        case True
        have bash: "bash_result aw = Inr (0, err)" using Inr b True by simp
        have t: "test_result aw \<noteq> Inr 0"
          using False chat bash by (simp add: gbv_succeeds_def)
        have p: "phases_of_attempt aw = [Generating, Building, Validating]"
          using chat bash by (simp add: phases_of_attempt_def)
        let ?st3 = "st\<lparr>evolution_script := Some (script_of aw),
            trace := trace st @ gbv_events cf aw task v prev
                     @ calls_made (give_up_tests_calls aw i)\<rparr>"
        note a = attempt_validation_fails_last [OF chat bash t assms(2), of cf i task v prev st]
        show ?thesis
        proof (cases "first_error (map fst (give_up_tests_calls aw i))")
          case None
          then have "api_error aw Tests_comment_site = None"
            by (cases "api_error aw Tests_comment_site") (simp_all add: give_up_tests_calls_def)
          then have "failed_label_request i \<in> set (calls_made (give_up_tests_calls aw i))"
            by (rule failed_label_made)
          then show ?thesis using a p None
            by (intro exI [of _ "Inr Break"] exI [of _ ?st3]
                exI [of _ "gbv_events cf aw task v prev @ calls_made (give_up_tests_calls aw i)"])
              simp
        next
          case (Some e)
          show ?thesis
            by (rule via_handler_last [OF assms(2), where e = e and stx = ?st3
                  and pre = "gbv_events cf aw task v prev @ calls_made (give_up_tests_calls aw i)"])
              (simp_all add: a Some p)
        qed
      qed
    qed
  qed
qed

text \<open>A successful sequence followed by a publication in which nothing raises.\<close>

lemma attempt_succeeds:
  assumes "gbv_succeeds aw" "publish_error aw = None" "execv_error aw = None"
  shows "\<exists>st' es. attempt cf aw i task v n prev st =
             (Inl (Replaced (''agent_v'' @ str_int v @ ''.py'')), st')
           \<and> trace st' = trace st @ es \<and> phases es = [Generating, Building, Validating]
           \<and> success_report i v n \<in> set es"
proof -
  have "first_error (map fst (publish_calls aw i task v n)) = None"
    using assms(2) by (simp add: publish_steps_calls publish_error_def)
  then have "calls_made (publish_calls aw i task v n) = map snd (publish_calls aw i task v n)"
    by (rule calls_made_all)
  moreover have "success_report i v n \<in> set (map snd (publish_calls aw i task v n))"
    by (simp add: publish_calls_def)
  ultimately show ?thesis using assms
    by (simp add: attempt_validated)
qed

lemma count_list_app: "count_list (xs @ ys) x = count_list xs x + count_list ys x"
  by (induction xs) simp_all

lemma count_phases_of_attempt: "count_list (phases_of_attempt aw) Generating = 1"
  by (simp add: phases_of_attempt_def split: sum.splits prod.splits)

lemma count_concat_phases:
  "count_list (concat (map (\<lambda>a. phases_of_attempt (aws a)) as)) Generating = length as"
  by (induction as) (simp_all add: count_list_app count_phases_of_attempt)

lemma loop_fails_prefix:
  assumes "\<forall>a \<in> set as. \<not> attempt_ok (aws a) \<and> a \<noteq> max_retries"
  shows "\<exists>p st' es.
           (\<forall>rest. attempt_loop cf aws i task v (as @ rest) prev st
                    = attempt_loop cf aws i task v rest p st')
         \<and> trace st' = trace st @ es
         \<and> phases es = concat (map (\<lambda>a. phases_of_attempt (aws a)) as)
         \<and> list_all (attempt_event i v) es"
  using assms
proof (induction as arbitrary: prev st)
  case Nil
  show ?case by (intro exI [of _ prev] exI [of _ st] exI [of _ "[]"]) simp
next
  case (Cons a as)
  from Cons.prems have a: "\<not> attempt_ok (aws a)" "a \<noteq> max_retries" by simp_all
  from attempt_fails_mid [OF a, of cf i task v prev st] obtain p1 st1 es1 where
    1: "attempt cf (aws a) i task v a prev st = (Inr (Next_attempt p1), st1)"
      "trace st1 = trace st @ es1" "phases es1 = phases_of_attempt (aws a)"
      "list_all (attempt_event i v) es1" by blast
  from Cons.prems have "\<forall>a \<in> set as. \<not> attempt_ok (aws a) \<and> a \<noteq> max_retries" by simp
  from Cons.IH [OF this, of p1 st1] obtain p st' es where
    2: "\<forall>rest. attempt_loop cf aws i task v (as @ rest) p1 st1
                    = attempt_loop cf aws i task v rest p st'"
      "trace st' = trace st1 @ es"
      "phases es = concat (map (\<lambda>a. phases_of_attempt (aws a)) as)"
      "list_all (attempt_event i v) es" by blast
  have "\<forall>rest. attempt_loop cf aws i task v ((a # as) @ rest) prev st
                    = attempt_loop cf aws i task v rest p st'"
    using 1(1) 2(1) by (simp add: io_bind_apply)
  then show ?case using 1 2
    by (intro exI [of _ p] exI [of _ st'] exI [of _ "es1 @ es"]) simp
qed

lemma attempts_split:
  assumes "k < max_retries"
  shows "[1..<max_retries + 1] = [1..<k + 1] @ (k + 1) # [k + 2..<max_retries + 1]"
proof -
  have "[1..<(k + 1) + (max_retries - k)] = [1..<k + 1] @ [k + 1..<(k + 1) + (max_retries - k)]"
    by (rule upt_add_eq_append) simp
  moreover have "(k + 1) + (max_retries - k) = max_retries + 1" using assms by simp
  moreover have "[k + 1..<max_retries + 1] = (k + 1) # [k + 2..<max_retries + 1]"
    using assms by (simp add: upt_conv_Cons)
  ultimately show ?thesis by simp
qed

lemma attempts_last: "[1..<max_retries + 1] = [1..<max_retries] @ [max_retries]"
proof -
  have "[1..<Suc max_retries] = [1..<max_retries] @ [max_retries]"
    by (rule upt_Suc_append) (simp add: max_retries_def)
  then show ?thesis by (simp only: Suc_eq_plus1)
qed

lemma loop_succeeds_after:
  assumes h: "k < max_retries \<and> (\<forall>a \<in> {1..k}. \<not> attempt_ok (aws a)) \<and> attempt_ok (aws (k + 1))"
  shows "fst (attempt_loop cf aws i task v [1..<max_retries + 1] None st) = Inl (Replaced (''agent_v'' @ str_int v @ ''.py''))"
    and "cycles (new_events st (snd (attempt_loop cf aws i task v [1..<max_retries + 1] None st))) = k + 1"
    and "phases (new_events st (snd (attempt_loop cf aws i task v [1..<max_retries + 1] None st)))
        = concat (map (\<lambda>a. phases_of_attempt (aws a)) [1..<k + 2])"
    and "success_report i v (k + 1) \<in> set (new_events st (snd (attempt_loop cf aws i task v [1..<max_retries + 1] None st)))"
proof -
  let ?loop = "attempt_loop cf aws i task v [1..<max_retries + 1] None st"
  from h have "\<forall>a \<in> set [1..<k + 1]. \<not> attempt_ok (aws a) \<and> a \<noteq> max_retries" by auto
  from loop_fails_prefix [OF this, of cf i task v None st] obtain p st1 es1 where
    1: "\<forall>rest. attempt_loop cf aws i task v ([1..<k + 1] @ rest) None st
                    = attempt_loop cf aws i task v rest p st1"
      "trace st1 = trace st @ es1"
      "phases es1 = concat (map (\<lambda>a. phases_of_attempt (aws a)) [1..<k + 1])" by blast
  from h have ok: "gbv_succeeds (aws (k + 1))" "publish_error (aws (k + 1)) = None"
      "execv_error (aws (k + 1)) = None" by (simp_all add: attempt_ok_def)
  from attempt_succeeds [OF ok, of cf i task v "k + 1" p st1] obtain st2 es2 where
    2: "attempt cf (aws (k + 1)) i task v (k + 1) p st1 =
             (Inl (Replaced (''agent_v'' @ str_int v @ ''.py'')), st2)"
      "trace st2 = trace st1 @ es2" "phases es2 = [Generating, Building, Validating]"
      "success_report i v (k + 1) \<in> set es2" by blast
  have "?loop = attempt_loop cf aws i task v
      ([1..<k + 1] @ (k + 1) # [k + 2..<max_retries + 1]) None st"
    using h attempts_split [of k] by (simp only:)
  also have "\<dots> = attempt_loop cf aws i task v ((k + 1) # [k + 2..<max_retries + 1]) p st1"
    using 1(1) by blast
  also have "\<dots> = (Inl (Replaced (''agent_v'' @ str_int v @ ''.py'')), st2)"
    using 2(1) by (simp add: io_bind_apply)
  finally have loop: "?loop = (Inl (Replaced (''agent_v'' @ str_int v @ ''.py'')), st2)" .
  have ev: "new_events st st2 = es1 @ es2"
    using 1(2) 2(2) by (simp add: new_events_def)
  have ph: "phases (es1 @ es2) = concat (map (\<lambda>a. phases_of_attempt (aws a)) [1..<k + 2])"
    using 1(3) 2(3) ok(1) by (simp add: phases_of_attempt_success)
  show "fst ?loop = Inl (Replaced (''agent_v'' @ str_int v @ ''.py''))"
    unfolding loop fst_conv by (rule refl)
  show "cycles (new_events st (snd ?loop)) = k + 1"
    using ph count_concat_phases [of aws "[1..<k + 2]"] unfolding loop snd_conv by (simp add: ev cycles_def)
  show "phases (new_events st (snd ?loop)) = concat (map (\<lambda>a. phases_of_attempt (aws a)) [1..<k + 2])"
    using ph unfolding loop snd_conv by (simp add: ev)
  show "success_report i v (k + 1) \<in> set (new_events st (snd ?loop))"
    using 2(4) unfolding loop snd_conv by (simp add: ev)
qed

lemma loop_gives_up:
  assumes h: "\<forall>a \<in> {1..max_retries}. \<not> attempt_ok (aws a)"
  shows "fst (attempt_loop cf aws i task v [1..<max_retries + 1] None st) = Inr () \<or> (\<exists>e. fst (attempt_loop cf aws i task v [1..<max_retries + 1] None st) = Inl (Raise e))"
    and "cycles (new_events st (snd (attempt_loop cf aws i task v [1..<max_retries + 1] None st))) = max_retries"
    and "phases (new_events st (snd (attempt_loop cf aws i task v [1..<max_retries + 1] None st)))
        = concat (map (\<lambda>a. phases_of_attempt (aws a)) [1..<max_retries + 1])"
    and "list_ex (is_give_up_comment i) (new_events st (snd (attempt_loop cf aws i task v [1..<max_retries + 1] None st)))"
    and "give_up_returns (aws max_retries) \<Longrightarrow> fst (attempt_loop cf aws i task v [1..<max_retries + 1] None st) = Inr ()"
    and "give_up_returns (aws max_retries) \<Longrightarrow>
         failed_label_request i \<in> set (new_events st (snd (attempt_loop cf aws i task v [1..<max_retries + 1] None st)))"
proof -
  let ?loop = "attempt_loop cf aws i task v [1..<max_retries + 1] None st"
  from h have "\<forall>a \<in> set [1..<max_retries]. \<not> attempt_ok (aws a) \<and> a \<noteq> max_retries" by auto
  from loop_fails_prefix [OF this, of cf i task v None st] obtain p st1 es1 where
    1: "\<forall>rest. attempt_loop cf aws i task v ([1..<max_retries] @ rest) None st
                    = attempt_loop cf aws i task v rest p st1"
      "trace st1 = trace st @ es1"
      "phases es1 = concat (map (\<lambda>a. phases_of_attempt (aws a)) [1..<max_retries])" by blast
  have "\<not> attempt_ok (aws max_retries)" using h by (simp add: max_retries_def)
  from attempt_fails_last [OF this refl, of cf i task v p st1] obtain r st2 es2 where
    2: "attempt cf (aws max_retries) i task v max_retries p st1 = (r, st2)"
      "r = Inr Break \<or> (\<exists>e. r = Inl (Raise e))"
      "trace st2 = trace st1 @ es2" "phases es2 = phases_of_attempt (aws max_retries)"
      "list_ex (is_give_up_comment i) es2"
      "give_up_returns (aws max_retries) \<longrightarrow> r = Inr Break \<and> failed_label_request i \<in> set es2"
    by blast
  have "?loop = attempt_loop cf aws i task v ([1..<max_retries] @ [max_retries]) None st"
    using attempts_last by (simp only:)
  also have "\<dots> = attempt_loop cf aws i task v [max_retries] p st1"
    using 1(1) by blast
  also have "\<dots> = ((case r of Inr c \<Rightarrow> Inr () | Inl a \<Rightarrow> Inl a), st2)"
    using 2(1,2) by (auto simp: io_bind_apply)
  finally have loop: "?loop = ((case r of Inr c \<Rightarrow> Inr () | Inl a \<Rightarrow> Inl a), st2)" .
  have ev: "new_events st st2 = es1 @ es2"
    using 1(2) 2(3) by (simp add: new_events_def)
  have ph: "phases (es1 @ es2) = concat (map (\<lambda>a. phases_of_attempt (aws a)) [1..<max_retries + 1])"
    unfolding attempts_last using 1(3) 2(4) by simp
  show "fst ?loop = Inr () \<or> (\<exists>e. fst ?loop = Inl (Raise e))"
    unfolding loop fst_conv using 2(2) by auto
  show "cycles (new_events st (snd ?loop)) = max_retries"
    using ph count_concat_phases [of aws "[1..<max_retries + 1]"] unfolding loop snd_conv by (simp add: ev cycles_def)
  show "phases (new_events st (snd ?loop))
      = concat (map (\<lambda>a. phases_of_attempt (aws a)) [1..<max_retries + 1])"
    using ph unfolding loop snd_conv by (simp add: ev)
  show "list_ex (is_give_up_comment i) (new_events st (snd ?loop))"
    using 2(5) unfolding loop snd_conv by (simp add: ev)
  show "fst ?loop = Inr ()" if "give_up_returns (aws max_retries)"
    unfolding loop fst_conv using 2(6) that by auto
  show "failed_label_request i \<in> set (new_events st (snd ?loop))" if "give_up_returns (aws max_retries)"
    unfolding loop snd_conv using 2(6) that by (simp add: ev)
qed

text \<open>
  Claim C1 (retry controller), for the attempts as the code bounds them: the body of one
  attempt is the generate/build/validate sequence followed, when the validation succeeds, by
  the publication and the replacement of the process, all inside one handler, and
  \<open>attempt_ok\<close> says that none of these fails.  If the first \<open>k < max_retries\<close> attempts of a
  task fail and attempt \<open>k + 1\<close> succeeds, the controller ends by replacing the process with the
  new version, has begun exactly \<open>k + 1\<close> cycles and has reported success at attempt \<open>k + 1\<close>.
  If every attempt fails, it has begun exactly \<open>max_retries\<close> cycles, has posted a give-up
  comment, and, when the requests of the give-up path return, has added the \<open>agent-failed\<close>
  label and returns to the scan.  In both cases the phases occur attempt after attempt, in
  the order generate, build, validate within each attempt: no attempt begins before the
  phases of the one before are over.
\<close>

theorem retry_controller_cycles:
  "(k < max_retries \<and> (\<forall>a \<in> {1..k}. \<not> attempt_ok (aws a)) \<and> attempt_ok (aws (k + 1)) \<longrightarrow>
      fst (attempt_loop cf aws i task v [1..<max_retries + 1] None st)
        = Inl (Replaced (''agent_v'' @ str_int v @ ''.py''))
      \<and> cycles (new_events st (snd (attempt_loop cf aws i task v [1..<max_retries + 1] None st)))
        = k + 1
      \<and> phases (new_events st (snd (attempt_loop cf aws i task v [1..<max_retries + 1] None st)))
        = concat (map (\<lambda>a. phases_of_attempt (aws a)) [1..<k + 2])
      \<and> success_report i v (k + 1)
        \<in> set (new_events st (snd (attempt_loop cf aws i task v [1..<max_retries + 1] None st))))
   \<and> ((\<forall>a \<in> {1..max_retries}. \<not> attempt_ok (aws a)) \<longrightarrow>
      (fst (attempt_loop cf aws i task v [1..<max_retries + 1] None st) = Inr ()
       \<or> (\<exists>e. fst (attempt_loop cf aws i task v [1..<max_retries + 1] None st) = Inl (Raise e)))
      \<and> cycles (new_events st (snd (attempt_loop cf aws i task v [1..<max_retries + 1] None st)))
        = max_retries
      \<and> phases (new_events st (snd (attempt_loop cf aws i task v [1..<max_retries + 1] None st)))
        = concat (map (\<lambda>a. phases_of_attempt (aws a)) [1..<max_retries + 1])
      \<and> list_ex (is_give_up_comment i)
          (new_events st (snd (attempt_loop cf aws i task v [1..<max_retries + 1] None st)))
      \<and> (give_up_returns (aws max_retries) \<longrightarrow>
           fst (attempt_loop cf aws i task v [1..<max_retries + 1] None st) = Inr ()
           \<and> failed_label_request i
               \<in> set (new_events st (snd (attempt_loop cf aws i task v [1..<max_retries + 1] None st)))))"
  using loop_succeeds_after [where k = k and aws = aws and cf = cf and i = i and task = task
      and v = v and st = st]
    loop_gives_up [where aws = aws and cf = cf and i = i and task = task and v = v and st = st]
  by blast

lemma attempts_123: "[1..<max_retries + 1] = [1, 2, 3]"
proof -
  have "[1..<4] = [1, 2, 3::nat]" by code_simp
  then show ?thesis by (simp add: max_retries_def)
qed

lemma emits_after:
  "emits P m \<Longrightarrow> \<exists>es. trace (snd (m (st\<lparr>trace := trace st @ [e]\<rparr>))) = trace st @ e # es"
  using emitsD [of P m "st\<lparr>trace := trace st @ [e]\<rparr>"] by auto

lemma emits_any_create_new_version: "emits (\<lambda>_. True) (create_new_version cf aw script version)"
  by (rule emits_create_new_version) (simp add: build_events_def)

lemma attempt_first_call:
  "\<exists>es. trace (snd (attempt cf aw i task v n p st)) = trace st @ Chat_completion task p # es"
  unfolding attempt_def attempt_body_def generate_evolution_script_def io_bind_assoc
    io_try_bind_emit
  apply (rule emits_after [where P = "\<lambda>_. True"])
  apply (rule emits_try)
   apply (rule emits_bind)
    apply (simp split: sum.splits py_error.splits)
   apply (rule emits_bind)
    apply (rule emits_set_evolution_script)
   apply (rule emits_bind)
    apply (rule emits_any_create_new_version)
   apply (rule emits_bind)
    apply (rule emits_test_new_version)
    apply simp
   apply (auto intro!: emits_bind emits_create_pull_request emits_github_api emits_os_execv)[1]
  apply (rule emits_mono [OF emits_attempt_handler])
  apply simp
  done

lemma attempt_loop_first_call:
  "\<exists>es. trace (snd (attempt_loop cf aws i task v (m # rest) p st))
         = trace st @ Chat_completion task p # es"
proof -
  obtain r st2 where a: "attempt cf (aws m) i task v m p st = (r, st2)"
    by (cases "attempt cf (aws m) i task v m p st")
  from attempt_first_call [of cf "aws m" i task v m p st] a obtain es1 where
    es1: "trace st2 = trace st @ Chat_completion task p # es1" by auto
  show ?thesis
  proof (cases r)
    case (Inl x)
    then show ?thesis using a es1 by (simp add: io_bind_apply)
  next
    case (Inr c)
    show ?thesis
    proof (cases c)
      case Break
      then show ?thesis using a es1 Inr by (simp add: io_bind_apply)
    next
      case (Next_attempt p')
      from emitsD [OF emits_attempt_loop [of i v cf aws task rest p'], of st2] obtain es2 where
        "trace (snd (attempt_loop cf aws i task v rest p' st2)) = trace st2 @ es2" by blast
      then show ?thesis using a es1 Inr Next_attempt by (simp add: io_bind_apply)
    qed
  qed
qed

lemma str_int_3: "str_int 3 = ''3''"
  by code_simp

lemma smooth_facts:
  "gbv_succeeds smooth_attempt" "publish_error smooth_attempt = None"
  "execv_error smooth_attempt = None" "attempt_ok smooth_attempt"
  "give_up_returns smooth_attempt"
  by (simp_all add: attempt_ok_def gbv_succeeds_def publish_error_def publish_steps_def
      give_up_returns_def smooth_attempt_def)

lemma failing_test_facts:
  "\<not> gbv_succeeds failing_test_attempt" "\<not> attempt_ok failing_test_attempt"
  "give_up_returns failing_test_attempt"
  "phases_of_attempt failing_test_attempt = [Generating, Building, Validating]"
  "bash_result failing_test_attempt = Inr (0, [])" "test_result failing_test_attempt \<noteq> Inr 0"
  "\<exists>content. chat_response failing_test_attempt = Inr content"
  by (simp_all add: attempt_ok_def gbv_succeeds_def give_up_returns_def phases_of_attempt_def
      failing_test_attempt_def smooth_attempt_def)

lemma failing_push_facts:
  "gbv_succeeds failing_push_attempt" "\<not> attempt_ok failing_push_attempt"
  "publish_error failing_push_attempt = Some (CalledProcessError ''git push failed'')"
  "give_up_returns failing_push_attempt"
  "api_error failing_push_attempt Error_comment_site = None"
  "api_error failing_push_attempt Error_label_site = None"
  by (simp_all add: attempt_ok_def gbv_succeeds_def publish_error_def publish_steps_def
      give_up_returns_def failing_push_attempt_def smooth_attempt_def)

text \<open>
  The theorem at a task whose self-check fails at the first attempt only (two cycles, success
  reported at attempt 2), and at a task whose self-check fails at every attempt (three cycles,
  then the failure label).
\<close>

theorem retry_controller_cycles_witness:
  "fst (attempt_loop ''agent.py'' test_fails_once 7 ''Add logging'' 3 [1..<max_retries + 1] None
          initial_state) = Inl (Replaced ''agent_v3.py'')
   \<and> cycles (new_events initial_state
        (snd (attempt_loop ''agent.py'' test_fails_once 7 ''Add logging'' 3 [1..<max_retries + 1]
                None initial_state))) = 2
   \<and> success_report 7 3 2
        \<in> set (new_events initial_state
              (snd (attempt_loop ''agent.py'' test_fails_once 7 ''Add logging'' 3
                      [1..<max_retries + 1] None initial_state)))
   \<and> fst (attempt_loop ''agent.py'' (\<lambda>n. failing_test_attempt) 7 ''Add logging'' 3
            [1..<max_retries + 1] None initial_state) = Inr ()
   \<and> cycles (new_events initial_state
        (snd (attempt_loop ''agent.py'' (\<lambda>n. failing_test_attempt) 7 ''Add logging'' 3
                [1..<max_retries + 1] None initial_state))) = 3
   \<and> failed_label_request 7
        \<in> set (new_events initial_state
              (snd (attempt_loop ''agent.py'' (\<lambda>n. failing_test_attempt) 7 ''Add logging'' 3
                      [1..<max_retries + 1] None initial_state)))"
proof -
  have a: "(1::nat) < max_retries \<and> (\<forall>a \<in> {1..1}. \<not> attempt_ok (test_fails_once a))
      \<and> attempt_ok (test_fails_once (1 + 1))"
    by (simp add: max_retries_def test_fails_once_def smooth_facts failing_test_facts)
  have b: "\<forall>a \<in> {1..max_retries}. \<not> attempt_ok ((\<lambda>n. failing_test_attempt) a)"
    by (simp add: failing_test_facts)
  have c: "give_up_returns ((\<lambda>n. failing_test_attempt) max_retries)"
    by (simp add: failing_test_facts)
  have m: "max_retries = 3" by (simp add: max_retries_def)
  from retry_controller_cycles [of 1 test_fails_once "''agent.py''" 7 "''Add logging''" 3
      initial_state] a
  have 1: "fst (attempt_loop ''agent.py'' test_fails_once 7 ''Add logging'' 3 [1..<max_retries + 1]
          None initial_state) = Inl (Replaced (''agent_v'' @ str_int 3 @ ''.py''))"
    and 2: "cycles (new_events initial_state
        (snd (attempt_loop ''agent.py'' test_fails_once 7 ''Add logging'' 3 [1..<max_retries + 1]
                None initial_state))) = 1 + 1"
    and 3: "success_report 7 3 (1 + 1)
        \<in> set (new_events initial_state
              (snd (attempt_loop ''agent.py'' test_fails_once 7 ''Add logging'' 3
                      [1..<max_retries + 1] None initial_state)))"
    by blast+
  from retry_controller_cycles [of 1 "\<lambda>n. failing_test_attempt" "''agent.py''" 7
      "''Add logging''" 3 initial_state] b c
  have 4: "fst (attempt_loop ''agent.py'' (\<lambda>n. failing_test_attempt) 7 ''Add logging'' 3
            [1..<max_retries + 1] None initial_state) = Inr ()"
    and 5: "cycles (new_events initial_state
        (snd (attempt_loop ''agent.py'' (\<lambda>n. failing_test_attempt) 7 ''Add logging'' 3
                [1..<max_retries + 1] None initial_state))) = max_retries"
    and 6: "failed_label_request 7
        \<in> set (new_events initial_state
              (snd (attempt_loop ''agent.py'' (\<lambda>n. failing_test_attempt) 7 ''Add logging'' 3
                      [1..<max_retries + 1] None initial_state)))"
    by blast+
  show ?thesis
    using 1 2 3 4 5 6 unfolding m by (simp add: str_int_3 numeral_2_eq_2)
qed

text \<open>
  A generate/build/validate sequence that succeeds at the first attempt does not bound the
  cycles by one: when \<open>git push\<close> fails at the first attempt only, the controller runs two
  cycles and reports success at attempt 2.
\<close>

theorem publish_failure_adds_a_cycle:
  "gbv_succeeds (push_fails_once 1)
   \<and> cycles (new_events initial_state
        (snd (attempt_loop ''agent.py'' push_fails_once 7 ''Add logging'' 3 [1..<max_retries + 1]
                None initial_state))) = 2
   \<and> success_report 7 3 2
        \<in> set (new_events initial_state
              (snd (attempt_loop ''agent.py'' push_fails_once 7 ''Add logging'' 3
                      [1..<max_retries + 1] None initial_state)))"
proof -
  have a: "(1::nat) < max_retries \<and> (\<forall>a \<in> {1..1}. \<not> attempt_ok (push_fails_once a))
      \<and> attempt_ok (push_fails_once (1 + 1))"
    by (simp add: max_retries_def push_fails_once_def smooth_facts failing_push_facts)
  have g: "gbv_succeeds (push_fails_once 1)"
    by (simp add: push_fails_once_def failing_push_facts)
  show ?thesis
    using g loop_succeeds_after(2,4) [OF a, where cf = "''agent.py''" and i = 7
        and task = "''Add logging''" and v = 3 and st = initial_state]
    by (simp add: numeral_2_eq_2)
qed

section \<open>Failure summaries and failures of the publication\<close>

text \<open>
  Claim C5 (summary of a clean validation failure), with the string of the code: when the
  script is generated, the build exits with 0 and the validator returns false, at an attempt
  that is not the last one, the attempt passes on to the next one the script and the summary
  \<open>New version failed --test flag (exit code non-zero)\<close>, and the first call of the next attempt
  is the generation request carrying exactly this context.
\<close>

theorem validation_failure_summary:
  assumes "chat_response (aws n) = Inr content" "bash_result (aws n) = Inr (0, err)"
    and "test_result (aws n) \<noteq> Inr 0" "n \<noteq> max_retries"
  shows "fst (attempt cf (aws n) i task v n prev st) =
           Inr (Next_attempt
                  (Some (script_of (aws n), ''New version failed --test flag (exit code non-zero)'')))
       \<and> (\<exists>es. new_events st (snd (attempt_loop cf aws i task v (n # m # rest) prev st)) =
              gbv_events cf (aws n) task v prev
              @ Chat_completion task
                  (Some (script_of (aws n), ''New version failed --test flag (exit code non-zero)''))
              # es)"
proof -
  let ?p = "Some (script_of (aws n), ''New version failed --test flag (exit code non-zero)'')"
  let ?st1 = "st\<lparr>trace := trace st @ gbv_events cf (aws n) task v prev,
         evolution_script := Some (script_of (aws n))\<rparr>"
  have a: "attempt cf (aws n) i task v n prev st = (Inr (Next_attempt ?p), ?st1)"
    using assms by (rule attempt_validation_fails)
  then have "attempt_loop cf aws i task v (n # m # rest) prev st
      = attempt_loop cf aws i task v (m # rest) ?p ?st1"
    by (simp add: io_bind_apply)
  moreover from attempt_loop_first_call [of cf aws i task v m rest ?p ?st1] obtain es where
    "trace (snd (attempt_loop cf aws i task v (m # rest) ?p ?st1))
       = trace ?st1 @ Chat_completion task ?p # es" by blast
  ultimately have "new_events st (snd (attempt_loop cf aws i task v (n # m # rest) prev st)) =
      gbv_events cf (aws n) task v prev @ Chat_completion task ?p # es"
    by (simp add: new_events_def)
  then show ?thesis using a by auto
qed

text \<open>
  The theorem at the first attempt of a task whose self-check fails at the first attempt only.
\<close>

theorem validation_failure_summary_witness:
  "fst (attempt ''agent.py'' (test_fails_once 1) 7 ''Add logging'' 3 1 None initial_state) =
     Inr (Next_attempt
            (Some (script_of (test_fails_once 1),
                   ''New version failed --test flag (exit code non-zero)'')))
   \<and> (\<exists>es. new_events initial_state
             (snd (attempt_loop ''agent.py'' test_fails_once 7 ''Add logging'' 3 [1, 2, 3] None
                     initial_state)) =
           gbv_events ''agent.py'' (test_fails_once 1) ''Add logging'' 3 None
           @ Chat_completion ''Add logging''
               (Some (script_of (test_fails_once 1),
                      ''New version failed --test flag (exit code non-zero)''))
           # es)"
proof -
  obtain content where c: "chat_response (test_fails_once 1) = Inr content"
    using failing_test_facts(7) by (auto simp: test_fails_once_def)
  have b: "bash_result (test_fails_once 1) = Inr (0, [])"
    and t: "test_result (test_fails_once 1) \<noteq> Inr 0"
    and n: "(1::nat) \<noteq> max_retries"
    by (simp_all add: test_fails_once_def failing_test_facts max_retries_def)
  show ?thesis
    using validation_failure_summary [where aws = test_fails_once and n = 1 and m = 2
        and rest = "[3]" and cf = "''agent.py''" and i = 7 and task = "''Add logging''"
        and v = 3 and prev = None and st = initial_state, OF c b t n]
    by simp
qed

text \<open>
  The summary handed to the next attempt after a clean validation failure is not the string
  \<open>artifact failed self-check.\<close>
\<close>

theorem validation_failure_summary_text:
  "fst (attempt ''agent.py'' failing_test_attempt 7 ''Add logging'' 3 1 None initial_state) =
     Inr (Next_attempt
            (Some (script_of failing_test_attempt,
                   ''New version failed --test flag (exit code non-zero)'')))
   \<and> ''New version failed --test flag (exit code non-zero)'' \<noteq> ''artifact failed self-check.''"
proof -
  obtain content where c: "chat_response failing_test_attempt = Inr content"
    using failing_test_facts(7) by blast
  have n: "(1::nat) \<noteq> max_retries" by (simp add: max_retries_def)
  show ?thesis
    using attempt_validation_fails [OF c failing_test_facts(5,6) n, of "''agent.py''" 7
        "''Add logging''" 3 None initial_state]
    by simp
qed

text \<open>
  Claim C4 (publish error), as the code handles it: the publication runs inside the handler of
  the attempt.  When a version-control or hosting step raises after a successful validation,
  an attempt that is not the last one passes the script and the text of the exception on to
  the next attempt, whose generation request follows the publication calls with no other
  phase in between; at the last attempt the handler posts the error comment and then adds
  the \<open>agent-failed\<close> label, and the attempt ends the loop when these two requests return.
\<close>

theorem publish_failure_is_retried:
  assumes "gbv_succeeds (aws n)" "publish_error (aws n) = Some e"
  shows "(n \<noteq> max_retries \<longrightarrow>
            fst (attempt cf (aws n) i task v n prev st) =
              Inr (Next_attempt (Some (script_of (aws n), str_of_exception e)))
          \<and> (\<exists>es es'. new_events st (snd (attempt_loop cf aws i task v (n # m # rest) prev st)) =
                gbv_events cf (aws n) task v prev @ es
                @ Chat_completion task (Some (script_of (aws n), str_of_exception e)) # es'
              \<and> phases es = []))
       \<and> (n = max_retries \<and> api_error (aws n) Error_comment_site = None
            \<and> api_error (aws n) Error_label_site = None \<longrightarrow>
            fst (attempt cf (aws n) i task v n prev st) = Inr Break
          \<and> (\<exists>es. new_events st (snd (attempt cf (aws n) i task v n prev st)) =
                es @ [Github_api ''POST'' (issue_path i ''/comments'') (Json_body (error_comment e)),
                      failed_label_request i]))"
proof (intro conjI impI)
  let ?p = "Some (script_of (aws n), str_of_exception e)"
  let ?pre = "gbv_events cf (aws n) task v prev @ calls_made (publish_calls (aws n) i task v n)"
  let ?st2 = "st\<lparr>evolution_script := Some (script_of (aws n)), trace := trace st @ ?pre\<rparr>"
  have h: "attempt cf (aws n) i task v n prev st = attempt_handler (aws n) i n e ?st2"
    using assms(2) by (simp add: attempt_validated [OF assms(1)])
  {
    assume n: "n \<noteq> max_retries"
    have a: "attempt cf (aws n) i task v n prev st = (Inr (Next_attempt ?p), ?st2)"
      using h n by (simp add: attempt_handler_mid)
    show "fst (attempt cf (aws n) i task v n prev st) = Inr (Next_attempt ?p)"
      by (simp add: a)
    have "attempt_loop cf aws i task v (n # m # rest) prev st
        = attempt_loop cf aws i task v (m # rest) ?p ?st2"
      using a by (simp add: io_bind_apply)
    moreover from attempt_loop_first_call [of cf aws i task v m rest ?p ?st2] obtain es' where
      "trace (snd (attempt_loop cf aws i task v (m # rest) ?p ?st2))
         = trace ?st2 @ Chat_completion task ?p # es'" by blast
    ultimately have "new_events st (snd (attempt_loop cf aws i task v (n # m # rest) prev st)) =
        gbv_events cf (aws n) task v prev @ calls_made (publish_calls (aws n) i task v n)
        @ Chat_completion task ?p # es'"
      by (simp add: new_events_def)
    then show "\<exists>es es'. new_events st (snd (attempt_loop cf aws i task v (n # m # rest) prev st)) =
                gbv_events cf (aws n) task v prev @ es @ Chat_completion task ?p # es'
              \<and> phases es = []"
      by (intro exI [of _ "calls_made (publish_calls (aws n) i task v n)"] exI [of _ es']) simp
  }
  {
    assume n: "n = max_retries \<and> api_error (aws n) Error_comment_site = None
            \<and> api_error (aws n) Error_label_site = None"
    have a: "attempt cf (aws n) i task v n prev st =
        (Inr Break,
         ?st2\<lparr>trace := trace ?st2 @
            [Github_api ''POST'' (issue_path i ''/comments'') (Json_body (error_comment e)),
             failed_label_request i]\<rparr>)"
    proof -
      from n have nm: "n = max_retries" and e1: "api_error (aws n) Error_comment_site = None"
        and e2: "api_error (aws n) Error_label_site = None" by blast+
      show ?thesis
        unfolding h attempt_handler_last [OF nm] give_up_error_calls_def
        by (simp add: e1 e2)
    qed
    show "fst (attempt cf (aws n) i task v n prev st) = Inr Break"
      by (simp add: a)
    show "\<exists>es. new_events st (snd (attempt cf (aws n) i task v n prev st)) =
                es @ [Github_api ''POST'' (issue_path i ''/comments'') (Json_body (error_comment e)),
                      failed_label_request i]"
      by (intro exI [of _ ?pre]) (simp add: a new_events_def)
  }
qed

text \<open>
  The theorem at the first and at the last attempt of a task whose \<open>git push\<close> fails at every
  attempt.
\<close>

theorem publish_failure_is_retried_witness:
  "fst (attempt ''agent.py'' (push_always_fails 1) 7 ''Add logging'' 3 1 None initial_state) =
     Inr (Next_attempt (Some (script_of (push_always_fails 1), ''git push failed'')))
   \<and> fst (attempt ''agent.py'' (push_always_fails 3) 7 ''Add logging'' 3 3 None initial_state) =
     Inr Break"
proof -
  have g: "gbv_succeeds (push_always_fails n)"
    and p: "publish_error (push_always_fails n) = Some (CalledProcessError ''git push failed'')"
    and e: "api_error (push_always_fails n) Error_comment_site = None"
      "api_error (push_always_fails n) Error_label_site = None" for n
    by (simp_all add: push_always_fails_def failing_push_facts)
  have m: "(1::nat) \<noteq> max_retries" "(3::nat) = max_retries" by (simp_all add: max_retries_def)
  from publish_failure_is_retried [where aws = push_always_fails and n = 1, OF g p,
      where cf = "''agent.py''" and i = 7 and task = "''Add logging''" and v = 3 and prev = None
        and st = initial_state] m(1)
  have 1: "fst (attempt ''agent.py'' (push_always_fails 1) 7 ''Add logging'' 3 1 None initial_state) =
     Inr (Next_attempt (Some (script_of (push_always_fails 1),
            str_of_exception (CalledProcessError ''git push failed''))))" by blast
  from publish_failure_is_retried [where aws = push_always_fails and n = 3, OF g p,
      where cf = "''agent.py''" and i = 7 and task = "''Add logging''" and v = 3 and prev = None
        and st = initial_state] m(2) e [of 3]
  have 2: "fst (attempt ''agent.py'' (push_always_fails 3) 7 ''Add logging'' 3 3 None initial_state) =
     Inr Break" by blast
  show ?thesis using 1 2 by simp
qed

lemma get_next_version_fresh: "get_next_version [''agent.py''] = 1"
  by code_simp

text \<open>
  A scan with one open task whose \<open>git push\<close> fails at every attempt: the failure is retried
  (three cycles), the \<open>agent-failed\<close> label is added, and the scan returns normally and ends
  with the 30-second sleep between scans, not in the handler of the scan.
\<close>

theorem publish_failure_gives_up:
  "fst (scan push_failing_scan_world initial_state) = Inr ()
   \<and> last (new_events initial_state (snd (scan push_failing_scan_world initial_state))) = Sleep 30
   \<and> cycles (new_events initial_state (snd (scan push_failing_scan_world initial_state))) = 3
   \<and> failed_label_request 42
       \<in> set (new_events initial_state (snd (scan push_failing_scan_world initial_state)))"
proof -
  let ?st1 = "initial_state\<lparr>trace :=
      [List_dir, Github_api ''GET'' ''/issues?labels=agent-task&state=open'' No_json]\<rparr>"
  let ?loop = "attempt_loop ''agent.py'' push_always_fails 42 ''Add logging'' 1
      [1..<max_retries + 1] None ?st1"
  have f: "\<forall>a \<in> {1..max_retries}. \<not> attempt_ok (push_always_fails a)"
    and g: "give_up_returns (push_always_fails max_retries)"
    by (simp_all add: push_always_fails_def failing_push_facts)
  note l = loop_gives_up [OF f, where cf = "''agent.py''" and i = 42 and task = "''Add logging''"
      and v = 1 and st = ?st1]
  obtain st2 where loop: "?loop = (Inr (), st2)"
    using l(5) [OF g] by (cases ?loop) auto
  from emitsD [OF emits_attempt_loop [of 42 1 "''agent.py''" push_always_fails "''Add logging''"
      "[1..<max_retries + 1]" None], of ?st1] loop
  obtain es where es: "trace st2 = trace ?st1 @ es" by auto
  have c: "cycles es = 3" and lb: "failed_label_request 42 \<in> set es"
    using l(2) l(6) [OF g] loop es by (simp_all add: new_events_def max_retries_def)
  have sc: "scan push_failing_scan_world initial_state
      = (Inr (), st2\<lparr>trace := trace st2 @ [Sleep 30]\<rparr>)"
    using loop
    by (simp add: scan_def push_failing_scan_world_def get_next_version_fresh process_issue_def
        io_try_def io_bind_apply emit_def initial_state_def)
  show ?thesis
    unfolding sc fst_conv snd_conv
    using c lb es
    by (simp add: new_events_def initial_state_def cycles_def)
qed

end
